theory Spec2Isabelle
  imports Main "HOL-Library.Multiset" "HOL-Library.Product_Lexorder"
begin

section \<open>Data model (types/todo.ts)\<close>

text \<open>
  The interfaces of \<^verbatim>\<open>types/todo.ts\<close>. A field declared \<^verbatim>\<open>name?: T\<close> is an
  \<open>option\<close>: \<open>None\<close> is the JavaScript value \<^verbatim>\<open>undefined\<close> (or the missing key).
  Two interfaces may not share a selector name in one theory, so \<^verbatim>\<open>id\<close>,
  \<^verbatim>\<open>category\<close>, \<^verbatim>\<open>priority\<close> and \<^verbatim>\<open>filter\<close> carry a suffix naming their
  interface. Timestamps and dates are the strings the source stores.
\<close>

datatype Priority = low | medium | high

record Todo =
  id_t :: string
  title :: string
  description :: "string option"
  completed :: bool
  priority :: Priority
  dueDate :: "string option"
  category :: "string option"
  tags :: "string list"
  createdAt :: string
  updatedAt :: string

record Category =
  id_c :: string
  name :: string
  color :: string

datatype SortBy = dueDate_key | priority_key | createdAt_key

record TodoFilter =
  searchText :: string
  category_f :: "string option"
  priority_f :: "Priority option"
  showCompleted :: bool
  sortBy :: SortBy

record TodoState =
  todos :: "Todo list"
  categories :: "Category list"
  filter_s :: TodoFilter

text \<open>
  \<^verbatim>\<open>Partial<Todo>\<close> and \<^verbatim>\<open>Partial<TodoFilter>\<close>: every key may be missing
  (\<open>None\<close>). A key of an optional field may also be present with the value
  \<^verbatim>\<open>undefined\<close> (the form sends \<^verbatim>\<open>description: description.trim() || undefined\<close>),
  which is \<open>Some None\<close>; the object spread copies such a key like any other. A key of
  a required field is taken to hold a value of the field's type when present, as the
  result type \<^verbatim>\<open>TodoState\<close> of the reducer demands.
\<close>

record PartialTodo =
  p_id :: "string option"
  p_title :: "string option"
  p_description :: "string option option"
  p_completed :: "bool option"
  p_priority :: "Priority option"
  p_dueDate :: "string option option"
  p_category :: "string option option"
  p_tags :: "string list option"
  p_createdAt :: "string option"
  p_updatedAt :: "string option"

record PartialTodoFilter =
  p_searchText :: "string option"
  p_category_f :: "string option option"
  p_priority_f :: "Priority option option"
  p_showCompleted :: "bool option"
  p_sortBy :: "SortBy option"

definition no_updates :: PartialTodo where
  "no_updates = \<lparr> p_id = None, p_title = None, p_description = None, p_completed = None,
     p_priority = None, p_dueDate = None, p_category = None, p_tags = None,
     p_createdAt = None, p_updatedAt = None \<rparr>"

section \<open>State store (context/TodoReducer.ts)\<close>

datatype TodoAction =
    ADD_TODO Todo
  | UPDATE_TODO string PartialTodo
  | DELETE_TODO string
  | TOGGLE_TODO string
  | ADD_CATEGORY Category
  | DELETE_CATEGORY string
  | SET_FILTER PartialTodoFilter
  | LOAD_STATE TodoState
  | UNKNOWN_ACTION

text \<open>
  \<open>UNKNOWN_ACTION\<close> stands for an action object whose \<^verbatim>\<open>type\<close> is none of the eight
  of the union (the reducer's test passes one with \<^verbatim>\<open>as any\<close>); it reaches the
  \<^verbatim>\<open>default\<close> branch.

  Object spread: \<open>own p old\<close> is the value of a key after \<^verbatim>\<open>{ ...old, ...p }\<close>, the
  later object's own key winning.
\<close>

definition own :: "'a option \<Rightarrow> 'a \<Rightarrow> 'a" where
  "own p old = (case p of None \<Rightarrow> old | Some v \<Rightarrow> v)"

definition spread_todo :: "Todo \<Rightarrow> PartialTodo \<Rightarrow> Todo" where
  "spread_todo todo updates =
     \<lparr> id_t = own (p_id updates) (id_t todo),
       title = own (p_title updates) (title todo),
       description = own (p_description updates) (description todo),
       completed = own (p_completed updates) (completed todo),
       priority = own (p_priority updates) (priority todo),
       dueDate = own (p_dueDate updates) (dueDate todo),
       category = own (p_category updates) (category todo),
       tags = own (p_tags updates) (tags todo),
       createdAt = own (p_createdAt updates) (createdAt todo),
       updatedAt = own (p_updatedAt updates) (updatedAt todo) \<rparr>"

definition spread_filter :: "TodoFilter \<Rightarrow> PartialTodoFilter \<Rightarrow> TodoFilter" where
  "spread_filter f p =
     \<lparr> searchText = own (p_searchText p) (searchText f),
       category_f = own (p_category_f p) (category_f f),
       priority_f = own (p_priority_f p) (priority_f f),
       showCompleted = own (p_showCompleted p) (showCompleted f),
       sortBy = own (p_sortBy p) (sortBy f) \<rparr>"

text \<open>
  The reducer reads the wall clock itself: \<^verbatim>\<open>new Date().toISOString()\<close> stands in the
  callback of \<^verbatim>\<open>map\<close>, in the branch of a matching todo, so one invocation reads the
  clock once per matching todo, in index order. The clock is the function \<open>clock\<close>:
  \<open>clock k\<close> is the text the \<open>k\<close>-th reading of the invocation (counted from 0) returns.
  \<open>map_clock clock k p f xs\<close> is \<^verbatim>\<open>xs.map((x) => p(x) ? f(x, now()) : x)\<close> when \<open>k\<close>
  readings have been made before.
\<close>

fun map_clock :: "(nat \<Rightarrow> string) \<Rightarrow> nat \<Rightarrow> ('a \<Rightarrow> bool) \<Rightarrow> ('a \<Rightarrow> string \<Rightarrow> 'a) \<Rightarrow> 'a list \<Rightarrow> 'a list" where
  "map_clock clock k p f [] = []"
| "map_clock clock k p f (x # xs) =
     (if p x then f x (clock k) # map_clock clock (Suc k) p f xs
      else x # map_clock clock k p f xs)"

definition update_todo :: "PartialTodo \<Rightarrow> Todo \<Rightarrow> string \<Rightarrow> Todo" where
  "update_todo updates todo now = (spread_todo todo updates)\<lparr> updatedAt := now \<rparr>"

definition toggle_todo :: "Todo \<Rightarrow> string \<Rightarrow> Todo" where
  "toggle_todo todo now = todo\<lparr> completed := \<not> completed todo, updatedAt := now \<rparr>"

fun todoReducer :: "(nat \<Rightarrow> string) \<Rightarrow> TodoState \<Rightarrow> TodoAction \<Rightarrow> TodoState" where
  "todoReducer clock state (ADD_TODO payload) =
     state\<lparr> todos := todos state @ [payload] \<rparr>"
| "todoReducer clock state (UPDATE_TODO i updates) =
     state\<lparr> todos := map_clock clock 0 (\<lambda>todo. id_t todo = i) (update_todo updates) (todos state) \<rparr>"
| "todoReducer clock state (DELETE_TODO payload) =
     state\<lparr> todos := filter (\<lambda>todo. id_t todo \<noteq> payload) (todos state) \<rparr>"
| "todoReducer clock state (TOGGLE_TODO payload) =
     state\<lparr> todos := map_clock clock 0 (\<lambda>todo. id_t todo = payload) toggle_todo (todos state) \<rparr>"
| "todoReducer clock state (ADD_CATEGORY payload) =
     state\<lparr> categories := categories state @ [payload] \<rparr>"
| "todoReducer clock state (DELETE_CATEGORY payload) =
     state\<lparr> categories := filter (\<lambda>cat. id_c cat \<noteq> payload) (categories state) \<rparr>"
| "todoReducer clock state (SET_FILTER payload) =
     state\<lparr> filter_s := spread_filter (filter_s state) payload \<rparr>"
| "todoReducer clock state (LOAD_STATE payload) = payload"
| "todoReducer clock state UNKNOWN_ACTION = state"

definition initialState :: TodoState where
  "initialState =
     \<lparr> todos = [], categories = [],
       filter_s = \<lparr> searchText = [], category_f = None, priority_f = None,
                    showCompleted = True, sortBy = createdAt_key \<rparr> \<rparr>"

text \<open>A clock that stands still during one invocation of the reducer.\<close>

definition clock_at :: "string \<Rightarrow> nat \<Rightarrow> string" where
  "clock_at now k = now"

text \<open>The number of matching entries before position \<open>k\<close>: the number of clock
  readings \<open>map_clock\<close> has made when it reaches position \<open>k\<close>.\<close>

definition readings_before :: "('a \<Rightarrow> bool) \<Rightarrow> nat \<Rightarrow> 'a list \<Rightarrow> nat" where
  "readings_before p k xs = length (filter p (take k xs))"

section \<open>Derived view (components/TodoList/TodoList.tsx)\<close>

text \<open>
  Three functions of the JavaScript engine are used by the view and are no code of the
  repository. The view takes two of them as parameters, with no assumption on either:
  \<^item> \<open>toLowerCase\<close>, the text \<^verbatim>\<open>s.toLowerCase()\<close>;
  \<^item> \<open>getTime\<close>, the number \<^verbatim>\<open>new Date(s).getTime()\<close>: \<open>Some\<close> of the milliseconds
    since the epoch, or \<open>None\<close> for \<^verbatim>\<open>NaN\<close>, which is what a text that is no date
    gives. The comparator subtracts two such numbers and \<^verbatim>\<open>sort\<close> uses the sign of
    the difference only; both numbers are integers of magnitude at most 8.64e15, exact
    as doubles, and the rounded difference of two doubles has the sign of the exact
    one, so the difference is taken over \<open>int\<close>.

  The third is \<^verbatim>\<open>Array.prototype.sort\<close>, below.
\<close>

text \<open>A JavaScript string in a condition: \<^verbatim>\<open>undefined\<close> and the empty text are falsy.\<close>

definition truthy :: "string option \<Rightarrow> bool" where
  "truthy v = (case v of None \<Rightarrow> False | Some s \<Rightarrow> s \<noteq> [])"

text \<open>\<^verbatim>\<open>s.includes(q)\<close>: \<open>q\<close> occurs in \<open>s\<close> at some position.\<close>

fun includes_s :: "string \<Rightarrow> string \<Rightarrow> bool" where
  "includes_s [] q = (q = [])"
| "includes_s (c # cs) q = (take (length q) (c # cs) = q \<or> includes_s cs q)"

text \<open>
  The callback of the search filter. \<^verbatim>\<open>todo.description?.toLowerCase().includes(..)\<close>
  is \<^verbatim>\<open>undefined\<close>, hence falsy, for a todo with no description.
\<close>

definition matchesSearch :: "(string \<Rightarrow> string) \<Rightarrow> string \<Rightarrow> Todo \<Rightarrow> bool" where
  "matchesSearch toLowerCase searchLower todo =
     (includes_s (toLowerCase (title todo)) searchLower \<or>
      (case description todo of None \<Rightarrow> False
       | Some d \<Rightarrow> includes_s (toLowerCase d) searchLower))"

definition filterTodos :: "(string \<Rightarrow> string) \<Rightarrow> TodoState \<Rightarrow> Todo list" where
  "filterTodos toLowerCase state =
     (let filtered = todos state;
          filtered = (if searchText (filter_s state) \<noteq> []
                      then filter (matchesSearch toLowerCase (toLowerCase (searchText (filter_s state)))) filtered
                      else filtered);
          filtered = (if truthy (category_f (filter_s state))
                      then filter (\<lambda>todo. category todo = category_f (filter_s state)) filtered
                      else filtered);
          filtered = (if priority_f (filter_s state) \<noteq> None
                      then filter (\<lambda>todo. Some (priority todo) = priority_f (filter_s state)) filtered
                      else filtered);
          filtered = (if \<not> showCompleted (filter_s state)
                      then filter (\<lambda>todo. \<not> completed todo) filtered
                      else filtered)
      in filtered)"

text \<open>
  The comparator passed to \<^verbatim>\<open>sort\<close>. Its result is a JavaScript number: \<open>Some\<close> of an
  integer, or \<open>None\<close> for \<^verbatim>\<open>NaN\<close>, which a subtraction yields when an operand is
  \<^verbatim>\<open>NaN\<close>.
\<close>

definition minus_num :: "int option \<Rightarrow> int option \<Rightarrow> int option" where
  "minus_num x y = (case x of None \<Rightarrow> None | Some a \<Rightarrow> (case y of None \<Rightarrow> None | Some b \<Rightarrow> Some (a - b)))"

definition dateTime :: "(string \<Rightarrow> int option) \<Rightarrow> string option \<Rightarrow> int option" where
  "dateTime getTime d = (case d of None \<Rightarrow> None | Some s \<Rightarrow> getTime s)"

fun priorityOrder :: "Priority \<Rightarrow> int" where
  "priorityOrder high = 0"
| "priorityOrder medium = 1"
| "priorityOrder low = 2"

definition compareTodos :: "(string \<Rightarrow> int option) \<Rightarrow> SortBy \<Rightarrow> Todo \<Rightarrow> Todo \<Rightarrow> int option" where
  "compareTodos getTime key a b =
     (if completed a \<noteq> completed b then Some (if completed a then 1 else - 1)
      else case key of
        dueDate_key \<Rightarrow>
          if \<not> truthy (dueDate a) \<and> \<not> truthy (dueDate b) then Some 0
          else if \<not> truthy (dueDate a) then Some 1
          else if \<not> truthy (dueDate b) then Some (- 1)
          else minus_num (dateTime getTime (dueDate a)) (dateTime getTime (dueDate b))
      | priority_key \<Rightarrow> Some (priorityOrder (priority a) - priorityOrder (priority b))
      | createdAt_key \<Rightarrow> minus_num (getTime (createdAt b)) (getTime (createdAt a)))"

text \<open>
  \<^verbatim>\<open>Array.prototype.sort(comparefn)\<close>. ECMAScript reads a \<^verbatim>\<open>NaN\<close> result of the
  comparator as \<open>+0\<close> (\<open>sortCompare\<close>), requires the sort to be stable, and fixes its
  result when the comparator is consistent: the one stable arrangement in the
  comparator's order. For an inconsistent comparator the order is the engine's choice.
  The model is the stable insertion sort: each element, from the last to the first, is
  put into the sorted rest before the first element it does not compare greater than.
  It is the engine's list where the comparator is consistent, which it is when the
  dates it reads are dates; a text that is no date makes it \<^verbatim>\<open>NaN\<close> against every
  date and inconsistent. The order of the view is therefore stated below for states
  whose dates, on the todos in the view, are dates, as the data model has them;
  elsewhere only that the result holds the elements of the input is used, which every
  sort guarantees.
\<close>

definition sortCompare :: "('a \<Rightarrow> 'a \<Rightarrow> int option) \<Rightarrow> 'a \<Rightarrow> 'a \<Rightarrow> int" where
  "sortCompare comparefn x y = (case comparefn x y of None \<Rightarrow> 0 | Some v \<Rightarrow> v)"

fun insert_js :: "('a \<Rightarrow> 'a \<Rightarrow> int option) \<Rightarrow> 'a \<Rightarrow> 'a list \<Rightarrow> 'a list" where
  "insert_js comparefn x [] = [x]"
| "insert_js comparefn x (y # ys) =
     (if sortCompare comparefn x y \<le> 0 then x # y # ys else y # insert_js comparefn x ys)"

fun sort_js :: "('a \<Rightarrow> 'a \<Rightarrow> int option) \<Rightarrow> 'a list \<Rightarrow> 'a list" where
  "sort_js comparefn [] = []"
| "sort_js comparefn (x # xs) = insert_js comparefn x (sort_js comparefn xs)"

definition filteredAndSortedTodos :: "(string \<Rightarrow> string) \<Rightarrow> (string \<Rightarrow> int option) \<Rightarrow> TodoState \<Rightarrow> Todo list" where
  "filteredAndSortedTodos toLowerCase getTime state =
     sort_js (compareTodos getTime (sortBy (filter_s state))) (filterTodos toLowerCase state)"

text \<open>
  The words of the specification. \<open>q\<close> is a substring of \<open>s\<close>; the instant of a todo's
  due date, \<open>None\<close> for a todo with no due date (as in the source, an empty text is no
  due date) and for a due date that is no date.
\<close>

definition substring_of :: "string \<Rightarrow> string \<Rightarrow> bool" where
  "substring_of q s = (\<exists>pre post. s = pre @ q @ post)"

definition dueTime :: "(string \<Rightarrow> int option) \<Rightarrow> Todo \<Rightarrow> int option" where
  "dueTime getTime todo = (if truthy (dueDate todo) then dateTime getTime (dueDate todo) else None)"

text \<open>
  The order the \<^verbatim>\<open>dueDate\<close> comparator describes, as a key: completion first, then
  todos with a due date before todos with none, then the instant of the due date.
\<close>

definition dueKey :: "(string \<Rightarrow> int option) \<Rightarrow> Todo \<Rightarrow> bool \<times> bool \<times> int" where
  "dueKey getTime todo =
     (completed todo, \<not> truthy (dueDate todo),
      (case dueTime getTime todo of None \<Rightarrow> 0 | Some v \<Rightarrow> v))"

text \<open>
  The order each comparator describes, as a key: completion first; then, under
  \<^verbatim>\<open>dueDate\<close>, the key above; under \<^verbatim>\<open>priority\<close>, the rank of the priority; under
  \<^verbatim>\<open>createdAt\<close>, the instant of creation, later first.
\<close>

definition viewKey :: "(string \<Rightarrow> int option) \<Rightarrow> SortBy \<Rightarrow> Todo \<Rightarrow> bool \<times> bool \<times> int" where
  "viewKey getTime key todo =
     (case key of
        dueDate_key \<Rightarrow> dueKey getTime todo
      | priority_key \<Rightarrow> (completed todo, False, priorityOrder (priority todo))
      | createdAt_key \<Rightarrow>
          (completed todo, False, - (case getTime (createdAt todo) of None \<Rightarrow> 0 | Some v \<Rightarrow> v)))"

section \<open>Persistence adapter (utils/localStorage.ts)\<close>

text \<open>
  An exception of the engine, for the operations that can raise: a read of the
  browser's storage and \<^verbatim>\<open>JSON.parse\<close>. A computation that can raise returns
  \<open>exn + 'a\<close>, \<open>Inl\<close> for the exception.
\<close>

datatype exn = SyntaxError | StorageError

definition STORAGE_KEY :: string where
  "STORAGE_KEY = ''todo-app-state''"

text \<open>\<^verbatim>\<open>try { body } catch (error) { handler }\<close>.\<close>

definition try_catch :: "exn + 'a \<Rightarrow> (exn \<Rightarrow> exn + 'a) \<Rightarrow> exn + 'a" where
  "try_catch body handler = (case body of Inl e \<Rightarrow> handler e | Inr v \<Rightarrow> Inr v)"

text \<open>
  Modelled from the spec: \<^verbatim>\<open>utils/localStorage.ts\<close> (the function
  \<^verbatim>\<open>loadFromLocalStorage\<close>) is missing from the sources; only its test and its caller
  are there. The specification: read the named slot; if absent, return no value; if
  the text fails to parse, catch the error, log it and return no value; if the storage
  raises on read, the same. The test names the slot \<^verbatim>\<open>todo-app-state\<close>. The storage
  read \<open>getItem\<close> and the parser \<open>parse\<close> (\<^verbatim>\<open>JSON.parse\<close>) are the engine's and are
  parameters. \<open>None\<close> is the value \<^verbatim>\<open>null\<close>; a result \<open>Inl\<close> would be an exception
  that leaves the function.
\<close>

definition loadFromLocalStorage ::
    "(string \<Rightarrow> exn + string option) \<Rightarrow> (string \<Rightarrow> exn + TodoState) \<Rightarrow> exn + TodoState option" where
  "loadFromLocalStorage getItem parse =
     try_catch
       (case getItem STORAGE_KEY of
          Inl e \<Rightarrow> Inl e
        | Inr None \<Rightarrow> Inr None
        | Inr (Some serialized) \<Rightarrow>
            (case parse serialized of Inl e \<Rightarrow> Inl e | Inr state \<Rightarrow> Inr (Some state)))
       (\<lambda>error. Inr None)"

section \<open>Application facade (context/TodoContext.tsx)\<close>

text \<open>
  \<^verbatim>\<open>TodoProvider\<close> holds \<^verbatim>\<open>state\<close> (\<^verbatim>\<open>useReducer\<close>) and \<^verbatim>\<open>isInitialized\<close>
  (\<^verbatim>\<open>useState(false)\<close>) and declares two effects. What React does with them is no
  code of the repository; the model takes it as React documents it:
  \<^item> the body of an effect runs after a render has been committed and sees the values
    of that render; the effects of one render run in the order of their declaration;
  \<^item> \<^verbatim>\<open>dispatch\<close> and \<^verbatim>\<open>setIsInitialized\<close> queue an update; the queued updates are
    applied in order and the component renders again with the new values;
  \<^item> the first effect (dependencies \<^verbatim>\<open>[]\<close>) runs after the mount only; the second
    (dependencies \<^verbatim>\<open>[state, isInitialized]\<close>) runs after the mount and after every
    render in which one of the two has changed. React skips the render when the reducer
    returns the very object it was given; the model runs the second effect after
    every dispatch, which can only add calls of \<^verbatim>\<open>saveToLocalStorage\<close>.

  The provider is its two values and the calls it has made so far, in order.
\<close>

datatype Call = LoadCall "TodoState option" | SetIsInitializedCall bool | SaveCall TodoState

datatype Update = DispatchUpdate TodoAction | SetIsInitialized bool

record Provider =
  cur_state :: TodoState
  isInitialized :: bool
  calls :: "Call list"

text \<open>
  The first effect: \<open>savedState\<close> is what \<^verbatim>\<open>loadFromLocalStorage()\<close> returned. It
  gives the calls made and the updates queued.
\<close>

definition effect_load :: "TodoState option \<Rightarrow> Call list \<times> Update list" where
  "effect_load savedState =
     ([LoadCall savedState, SetIsInitializedCall True],
      (case savedState of None \<Rightarrow> [] | Some s \<Rightarrow> [DispatchUpdate (LOAD_STATE s)])
        @ [SetIsInitialized True])"

text \<open>The second effect, with the values of the render it belongs to.\<close>

definition effect_save :: "TodoState \<Rightarrow> bool \<Rightarrow> Call list" where
  "effect_save st initialized = (if initialized then [SaveCall st] else [])"

fun apply_update :: "(nat \<Rightarrow> string) \<Rightarrow> Provider \<Rightarrow> Update \<Rightarrow> Provider" where
  "apply_update clock p (DispatchUpdate action) =
     p\<lparr> cur_state := todoReducer clock (cur_state p) action \<rparr>"
| "apply_update clock p (SetIsInitialized b) = p\<lparr> isInitialized := b \<rparr>"

text \<open>
  The events of the provider's life. \<open>Mounted\<close>: the effects of the current render
  run as at the mount, first the load, then the save with the values of that same
  render; the queued updates are applied and the second effect runs for the new
  render. \<open>Dispatched\<close>: a caller dispatches an action (through \<^verbatim>\<open>addTodo\<close>,
  \<^verbatim>\<open>updateTodo\<close>, ... or \<^verbatim>\<open>dispatch\<close> itself); the reducer runs, the component
  renders and the second effect runs. The event carries the clock of the reducer's run.
\<close>

datatype Event = Mounted "nat \<Rightarrow> string" "TodoState option" | Dispatched "nat \<Rightarrow> string" TodoAction

fun facade_step :: "Provider \<Rightarrow> Event \<Rightarrow> Provider" where
  "facade_step p (Mounted clock savedState) =
     (let first_effect = effect_load savedState;
          second_effect = effect_save (cur_state p) (isInitialized p);
          p' = foldl (apply_update clock) p (snd first_effect)
      in p'\<lparr> calls := calls p @ fst first_effect @ second_effect
                          @ effect_save (cur_state p') (isInitialized p') \<rparr>)"
| "facade_step p (Dispatched clock action) =
     (let p' = apply_update clock p (DispatchUpdate action)
      in p'\<lparr> calls := calls p @ effect_save (cur_state p') (isInitialized p') \<rparr>)"

definition provider0 :: Provider where
  "provider0 = \<lparr> cur_state = initialState, isInitialized = False, calls = [] \<rparr>"

definition facade_run :: "Event list \<Rightarrow> Provider" where
  "facade_run events = foldl facade_step provider0 events"

text \<open>The state of the first call of \<^verbatim>\<open>saveToLocalStorage\<close> in a list of calls.\<close>

fun first_save :: "Call list \<Rightarrow> TodoState option" where
  "first_save [] = None"
| "first_save (SaveCall s # cs) = Some s"
| "first_save (c # cs) = first_save cs"

text \<open>
  Every call of \<^verbatim>\<open>saveToLocalStorage\<close> in a list of calls has a call of
  \<^verbatim>\<open>loadFromLocalStorage\<close> and a call \<^verbatim>\<open>setIsInitialized(true)\<close> before it.
\<close>

definition saves_after_init :: "Call list \<Rightarrow> bool" where
  "saves_after_init log =
     (\<forall>pre s post. log = pre @ SaveCall s # post \<longrightarrow>
        SetIsInitializedCall True \<in> set pre \<and> (\<exists>l. LoadCall l \<in> set pre))"

definition facade_inv :: "Provider \<Rightarrow> bool" where
  "facade_inv p =
     ((isInitialized p \<longrightarrow>
         SetIsInitializedCall True \<in> set (calls p) \<and> (\<exists>l. LoadCall l \<in> set (calls p)))
      \<and> (\<not> isInitialized p \<longrightarrow> (\<forall>s. SaveCall s \<notin> set (calls p)))
      \<and> saves_after_init (calls p))"

section \<open>The reducer on objects (context/TodoReducer.ts, with references)\<close>

text \<open>
  Whether the reducer mutates its argument is a question about objects, which the
  functions above, on values, cannot ask. Here the same code is read with JavaScript's
  objects: a state, an array, a todo, a category and a filter are objects in a heap,
  held by reference. The heap is the list of the objects allocated so far and a
  reference is a position in it; an object or array literal (\<^verbatim>\<open>{ ... }\<close>,
  \<^verbatim>\<open>[...]\<close>, and the arrays \<^verbatim>\<open>map\<close> and \<^verbatim>\<open>filter\<close> return) allocates a new object at
  the end. The source has no assignment to a property and calls no mutating method, so
  the model has no operation that writes to an allocated object. Strings, and the
  \<^verbatim>\<open>tags\<close> of a todo, which the reducer never reads, are kept as values inside the todo.
  Which position a new object gets is not observable in JavaScript; the order of the
  allocations of one call is immaterial.
\<close>

type_synonym addr = nat

datatype obj =
    StateObj addr addr addr
  | ArrayObj "addr list"
  | TodoObj Todo
  | CategoryObj Category
  | FilterObj TodoFilter

type_synonym heap = "obj list"

definition alloc :: "heap \<Rightarrow> obj \<Rightarrow> heap \<times> addr" where
  "alloc h v = (h @ [v], length h)"

definition rd :: "heap \<Rightarrow> addr \<Rightarrow> obj option" where
  "rd h a = (if a < length h then Some (h ! a) else None)"

text \<open>Typed reads: \<open>None\<close> when the reference holds no object of the expected kind.\<close>

definition get_state :: "heap \<Rightarrow> addr \<Rightarrow> (addr \<times> addr \<times> addr) option" where
  "get_state h a = (case rd h a of Some (StateObj t c f) \<Rightarrow> Some (t, c, f) | _ \<Rightarrow> None)"

definition get_array :: "heap \<Rightarrow> addr \<Rightarrow> addr list option" where
  "get_array h a = (case rd h a of Some (ArrayObj rs) \<Rightarrow> Some rs | _ \<Rightarrow> None)"

definition get_todo :: "heap \<Rightarrow> addr \<Rightarrow> Todo option" where
  "get_todo h a = (case rd h a of Some (TodoObj todo) \<Rightarrow> Some todo | _ \<Rightarrow> None)"

definition get_category :: "heap \<Rightarrow> addr \<Rightarrow> Category option" where
  "get_category h a = (case rd h a of Some (CategoryObj cat) \<Rightarrow> Some cat | _ \<Rightarrow> None)"

definition get_filter :: "heap \<Rightarrow> addr \<Rightarrow> TodoFilter option" where
  "get_filter h a = (case rd h a of Some (FilterObj f) \<Rightarrow> Some f | _ \<Rightarrow> None)"

text \<open>The values an array of references holds, read element by element.\<close>

fun read_all :: "(heap \<Rightarrow> addr \<Rightarrow> 'a option) \<Rightarrow> heap \<Rightarrow> addr list \<Rightarrow> 'a list option" where
  "read_all get h [] = Some []"
| "read_all get h (r # rs) =
     (case get h r of None \<Rightarrow> None
      | Some v \<Rightarrow> (case read_all get h rs of None \<Rightarrow> None | Some vs \<Rightarrow> Some (v # vs)))"

text \<open>The state value a reference to a state object stands for.\<close>

definition state_at :: "heap \<Rightarrow> addr \<Rightarrow> TodoState option" where
  "state_at h a =
     (case get_state h a of None \<Rightarrow> None
      | Some (t, c, f) \<Rightarrow>
        (case get_array h t of None \<Rightarrow> None
         | Some trs \<Rightarrow>
           (case read_all get_todo h trs of None \<Rightarrow> None
            | Some ts \<Rightarrow>
              (case get_array h c of None \<Rightarrow> None
               | Some crs \<Rightarrow>
                 (case read_all get_category h crs of None \<Rightarrow> None
                  | Some cs \<Rightarrow>
                    (case get_filter h f of None \<Rightarrow> None
                     | Some fl \<Rightarrow> Some \<lparr> todos = ts, categories = cs, filter_s = fl \<rparr>))))))"

text \<open>
  \<^verbatim>\<open>refs.map((todo) => p(todo) ? { ... } : todo)\<close>: a matching todo is replaced by a
  newly allocated object, built from the clock reading made for it; another keeps its
  reference.
\<close>

fun map_refs :: "(nat \<Rightarrow> string) \<Rightarrow> nat \<Rightarrow> (Todo \<Rightarrow> bool) \<Rightarrow> (Todo \<Rightarrow> string \<Rightarrow> Todo)
    \<Rightarrow> heap \<Rightarrow> addr list \<Rightarrow> (heap \<times> addr list) option" where
  "map_refs clock k p f h [] = Some (h, [])"
| "map_refs clock k p f h (r # rs) =
     (case get_todo h r of None \<Rightarrow> None
      | Some todo \<Rightarrow>
          if p todo
          then (case map_refs clock (Suc k) p f (fst (alloc h (TodoObj (f todo (clock k))))) rs of
                  None \<Rightarrow> None
                | Some (h', rs') \<Rightarrow> Some (h', snd (alloc h (TodoObj (f todo (clock k)))) # rs'))
          else (case map_refs clock k p f h rs of
                  None \<Rightarrow> None
                | Some (h', rs') \<Rightarrow> Some (h', r # rs')))"

text \<open>\<^verbatim>\<open>refs.filter((x) => p(x))\<close>: the references whose object satisfies \<open>p\<close>.\<close>

fun filter_refs :: "(heap \<Rightarrow> addr \<Rightarrow> 'a option) \<Rightarrow> ('a \<Rightarrow> bool) \<Rightarrow> heap \<Rightarrow> addr list \<Rightarrow> addr list option" where
  "filter_refs get p h [] = Some []"
| "filter_refs get p h (r # rs) =
     (case get h r of None \<Rightarrow> None
      | Some v \<Rightarrow>
          (case filter_refs get p h rs of None \<Rightarrow> None
           | Some rs' \<Rightarrow> Some (if p v then r # rs' else rs')))"

text \<open>An action whose payload objects are references into the heap. The payloads
  of Update Todo and Set Filter are only read, field by field, and are kept as values.\<close>

datatype ActionRef =
    ADD_TODO_ref addr
  | UPDATE_TODO_ref string PartialTodo
  | DELETE_TODO_ref string
  | TOGGLE_TODO_ref string
  | ADD_CATEGORY_ref addr
  | DELETE_CATEGORY_ref string
  | SET_FILTER_ref PartialTodoFilter
  | LOAD_STATE_ref addr
  | UNKNOWN_ACTION_ref

text \<open>
  \<open>todoReducer_ref clock h state action\<close>: the heap after the call and the reference
  returned; \<open>None\<close> when a reference does not hold what its type says.
  \<^verbatim>\<open>{ ...state, todos: x }\<close> allocates a state object with the other two references
  of \<open>state\<close>.
\<close>

fun todoReducer_ref :: "(nat \<Rightarrow> string) \<Rightarrow> heap \<Rightarrow> addr \<Rightarrow> ActionRef \<Rightarrow> (heap \<times> addr) option" where
  "todoReducer_ref clock h state (ADD_TODO_ref payload) =
     (case get_state h state of None \<Rightarrow> None
      | Some (t, c, f) \<Rightarrow>
        (case get_array h t of None \<Rightarrow> None
         | Some trs \<Rightarrow>
             Some (alloc (fst (alloc h (ArrayObj (trs @ [payload]))))
                     (StateObj (snd (alloc h (ArrayObj (trs @ [payload])))) c f))))"
| "todoReducer_ref clock h state (UPDATE_TODO_ref i updates) =
     (case get_state h state of None \<Rightarrow> None
      | Some (t, c, f) \<Rightarrow>
        (case get_array h t of None \<Rightarrow> None
         | Some trs \<Rightarrow>
           (case map_refs clock 0 (\<lambda>todo. id_t todo = i) (update_todo updates) h trs of None \<Rightarrow> None
            | Some (h1, updatedTodos) \<Rightarrow>
                Some (alloc (fst (alloc h1 (ArrayObj updatedTodos)))
                        (StateObj (snd (alloc h1 (ArrayObj updatedTodos))) c f)))))"
| "todoReducer_ref clock h state (DELETE_TODO_ref payload) =
     (case get_state h state of None \<Rightarrow> None
      | Some (t, c, f) \<Rightarrow>
        (case get_array h t of None \<Rightarrow> None
         | Some trs \<Rightarrow>
           (case filter_refs get_todo (\<lambda>todo. id_t todo \<noteq> payload) h trs of None \<Rightarrow> None
            | Some kept \<Rightarrow>
                Some (alloc (fst (alloc h (ArrayObj kept)))
                        (StateObj (snd (alloc h (ArrayObj kept))) c f)))))"
| "todoReducer_ref clock h state (TOGGLE_TODO_ref payload) =
     (case get_state h state of None \<Rightarrow> None
      | Some (t, c, f) \<Rightarrow>
        (case get_array h t of None \<Rightarrow> None
         | Some trs \<Rightarrow>
           (case map_refs clock 0 (\<lambda>todo. id_t todo = payload) toggle_todo h trs of None \<Rightarrow> None
            | Some (h1, toggledTodos) \<Rightarrow>
                Some (alloc (fst (alloc h1 (ArrayObj toggledTodos)))
                        (StateObj (snd (alloc h1 (ArrayObj toggledTodos))) c f)))))"
| "todoReducer_ref clock h state (ADD_CATEGORY_ref payload) =
     (case get_state h state of None \<Rightarrow> None
      | Some (t, c, f) \<Rightarrow>
        (case get_array h c of None \<Rightarrow> None
         | Some crs \<Rightarrow>
             Some (alloc (fst (alloc h (ArrayObj (crs @ [payload]))))
                     (StateObj t (snd (alloc h (ArrayObj (crs @ [payload])))) f))))"
| "todoReducer_ref clock h state (DELETE_CATEGORY_ref payload) =
     (case get_state h state of None \<Rightarrow> None
      | Some (t, c, f) \<Rightarrow>
        (case get_array h c of None \<Rightarrow> None
         | Some crs \<Rightarrow>
           (case filter_refs get_category (\<lambda>cat. id_c cat \<noteq> payload) h crs of None \<Rightarrow> None
            | Some kept \<Rightarrow>
                Some (alloc (fst (alloc h (ArrayObj kept)))
                        (StateObj t (snd (alloc h (ArrayObj kept))) f)))))"
| "todoReducer_ref clock h state (SET_FILTER_ref payload) =
     (case get_state h state of None \<Rightarrow> None
      | Some (t, c, f) \<Rightarrow>
        (case get_filter h f of None \<Rightarrow> None
         | Some fl \<Rightarrow>
             Some (alloc (fst (alloc h (FilterObj (spread_filter fl payload))))
                     (StateObj t c (snd (alloc h (FilterObj (spread_filter fl payload))))))))"
| "todoReducer_ref clock h state (LOAD_STATE_ref payload) = Some (h, payload)"
| "todoReducer_ref clock h state UNKNOWN_ACTION_ref = Some (h, state)"

text \<open>The action on values that an action on references stands for.\<close>

fun action_at :: "heap \<Rightarrow> ActionRef \<Rightarrow> TodoAction option" where
  "action_at h (ADD_TODO_ref payload) = map_option ADD_TODO (get_todo h payload)"
| "action_at h (UPDATE_TODO_ref i updates) = Some (UPDATE_TODO i updates)"
| "action_at h (DELETE_TODO_ref payload) = Some (DELETE_TODO payload)"
| "action_at h (TOGGLE_TODO_ref payload) = Some (TOGGLE_TODO payload)"
| "action_at h (ADD_CATEGORY_ref payload) = map_option ADD_CATEGORY (get_category h payload)"
| "action_at h (DELETE_CATEGORY_ref payload) = Some (DELETE_CATEGORY payload)"
| "action_at h (SET_FILTER_ref payload) = Some (SET_FILTER payload)"
| "action_at h (LOAD_STATE_ref payload) = map_option LOAD_STATE (state_at h payload)"
| "action_at h UNKNOWN_ACTION_ref = Some UNKNOWN_ACTION"

text \<open>The number of times the reducer reads the clock: once per todo that Update
  Todo or Toggle Todo matches.\<close>

fun clock_readings :: "TodoState \<Rightarrow> TodoAction \<Rightarrow> nat" where
  "clock_readings state (UPDATE_TODO i updates) = length (filter (\<lambda>todo. id_t todo = i) (todos state))"
| "clock_readings state (TOGGLE_TODO payload) = length (filter (\<lambda>todo. id_t todo = payload) (todos state))"
| "clock_readings state action = 0"

section \<open>Sample values\<close>

definition todo1 :: Todo where
  "todo1 = \<lparr> id_t = ''1'', title = ''Test Todo'', description = Some ''Test Description'',
     completed = False, priority = medium, dueDate = Some ''2025-12-31'',
     category = Some ''Work'', tags = [''test''],
     createdAt = ''2025-01-01T00:00:00.000Z'', updatedAt = ''2025-01-01T00:00:00.000Z'' \<rparr>"

definition state1 :: TodoState where
  "state1 = initialState\<lparr> todos := [todo1] \<rparr>"

definition todo1b :: Todo where
  "todo1b = todo1\<lparr> title := ''Second Todo'', completed := True \<rparr>"

definition cat1 :: Category where
  "cat1 = \<lparr> id_c = ''cat1'', name = ''Work'', color = ''#ff0000'' \<rparr>"

definition cat1b :: Category where
  "cat1b = \<lparr> id_c = ''cat1'', name = ''Personal'', color = ''#00ff00'' \<rparr>"

text \<open>A state in which two todos share the id \<^verbatim>\<open>1\<close> and two categories the id
  \<^verbatim>\<open>cat1\<close>: Add Todo and Add Category check no id.\<close>

definition state_dup :: TodoState where
  "state_dup = initialState\<lparr> todos := [todo1, todo1b], categories := [cat1, cat1b] \<rparr>"

definition clock_two :: "nat \<Rightarrow> string" where
  "clock_two k = (if k = 0 then ''2025-01-15T12:00:00.000Z'' else ''2025-01-15T12:00:00.001Z'')"

definition updates_id_createdAt :: PartialTodo where
  "updates_id_createdAt =
     no_updates\<lparr> p_id := Some ''2'', p_createdAt := Some ''1999-12-31T00:00:00.000Z'' \<rparr>"

text \<open>
  The engine's functions on the texts of the examples: lower case for ASCII letters,
  and \<^verbatim>\<open>new Date(s).getTime()\<close> for the dates the examples use (a date-only form is
  midnight UTC). The table stops at the texts of the examples.
\<close>

definition toLowerCase_ascii :: "string \<Rightarrow> string" where
  "toLowerCase_ascii s =
     map (\<lambda>c. if (65::nat) \<le> of_char c \<and> of_char c \<le> (90::nat)
              then char_of (of_char c + (32::nat)) else c) s"

definition getTime_sample :: "string \<Rightarrow> int option" where
  "getTime_sample s =
     (if s = ''2025-01-01T00:00:00.000Z'' \<or> s = ''2025-01-01'' then Some 1735689600000
      else if s = ''2025-01-02T00:00:00.000Z'' \<or> s = ''2025-01-02'' then Some 1735776000000
      else if s = ''2025-01-03T00:00:00.000Z'' then Some 1735862400000
      else if s = ''2025-01-04T00:00:00.000Z'' then Some 1735948800000
      else if s = ''2025-12-30'' then Some 1767052800000
      else if s = ''2025-12-31'' then Some 1767139200000
      else None)"

text \<open>The todos of the list's tests, and a fourth, completed one.\<close>

definition mock1 :: Todo where
  "mock1 = \<lparr> id_t = ''1'', title = ''High Priority Todo'', description = Some ''Important task'',
     completed = False, priority = high, dueDate = Some ''2025-12-31'',
     category = Some ''Work'', tags = [''urgent''],
     createdAt = ''2025-01-01T00:00:00.000Z'', updatedAt = ''2025-01-01T00:00:00.000Z'' \<rparr>"

definition mock2 :: Todo where
  "mock2 = \<lparr> id_t = ''2'', title = ''Medium Priority Todo'', description = Some ''Normal task'',
     completed = False, priority = medium, dueDate = Some ''2025-12-30'',
     category = Some ''Personal'', tags = [''normal''],
     createdAt = ''2025-01-02T00:00:00.000Z'', updatedAt = ''2025-01-02T00:00:00.000Z'' \<rparr>"

definition mock3 :: Todo where
  "mock3 = \<lparr> id_t = ''3'', title = ''Low Priority Todo'', description = Some ''Optional task'',
     completed = True, priority = low, dueDate = None,
     category = Some ''Work'', tags = [''later''],
     createdAt = ''2025-01-03T00:00:00.000Z'', updatedAt = ''2025-01-03T00:00:00.000Z'' \<rparr>"

definition mock4 :: Todo where
  "mock4 = \<lparr> id_t = ''4'', title = ''Archived'', description = None,
     completed = True, priority = high, dueDate = Some ''2025-12-30'',
     category = Some ''Work'', tags = [],
     createdAt = ''2025-01-04T00:00:00.000Z'', updatedAt = ''2025-01-04T00:00:00.000Z'' \<rparr>"

definition state_mock :: TodoState where
  "state_mock = initialState\<lparr> todos := [mock1, mock2, mock3, mock4] \<rparr>"

text \<open>The filter of the specification's example: search text \<^verbatim>\<open>a\<close>, category
  \<^verbatim>\<open>Work\<close>, priority \<^verbatim>\<open>high\<close>, completed todos hidden.\<close>

definition state_filtered :: TodoState where
  "state_filtered =
     state_mock\<lparr> filter_s := \<lparr> searchText = ''A'', category_f = Some ''Work'',
       priority_f = Some high, showCompleted = False, sortBy = createdAt_key \<rparr> \<rparr>"

text \<open>The todos of the list's tests, sorted by due date.\<close>

definition state_mock_due :: TodoState where
  "state_mock_due = state_mock\<lparr> filter_s := (filter_s initialState)\<lparr> sortBy := dueDate_key \<rparr> \<rparr>"

text \<open>
  A storage whose slot holds the text \<^verbatim>\<open>invalid json\<close>, an empty storage, a storage
  whose read raises, and a parser for the examples: it accepts one text, for
  \<open>state1\<close>, and raises \<^verbatim>\<open>SyntaxError\<close> on every other, as \<^verbatim>\<open>JSON.parse\<close> does on
  \<^verbatim>\<open>invalid json\<close>.
\<close>

definition getItem_corrupted :: "string \<Rightarrow> exn + string option" where
  "getItem_corrupted k = (if k = ''todo-app-state'' then Inr (Some ''invalid json'') else Inr None)"

definition getItem_empty :: "string \<Rightarrow> exn + string option" where
  "getItem_empty k = Inr None"

definition getItem_raises :: "string \<Rightarrow> exn + string option" where
  "getItem_raises k = Inl StorageError"

definition parse_sample :: "string \<Rightarrow> exn + TodoState" where
  "parse_sample text = (if text = ''{state1}'' then Inr state1 else Inl SyntaxError)"

text \<open>A clock for the examples, and two runs of the facade: a mount that loads
  \<open>state1\<close> followed by an Add Todo, and an Add Todo with no mount.\<close>

definition noon :: "nat \<Rightarrow> string" where
  "noon = clock_at ''2025-01-15T12:00:00.000Z''"

definition events_loaded :: "Event list" where
  "events_loaded = [Mounted noon (Some state1), Dispatched noon (ADD_TODO mock1)]"

definition events_unmounted :: "Event list" where
  "events_unmounted = [Dispatched noon (ADD_TODO mock1)]"

text \<open>A second later than \<open>noon\<close>; and a heap that holds \<open>state1\<close>: its todo, its two
  arrays, its filter and, at reference 4, the state object.\<close>

definition noon_later :: "nat \<Rightarrow> string" where
  "noon_later = clock_at ''2025-01-15T12:00:01.000Z''"

definition heap1 :: heap where
  "heap1 = [TodoObj todo1, ArrayObj [0], ArrayObj [], FilterObj (filter_s initialState),
            StateObj 1 2 3]"

section \<open>Lemmas about the list operations\<close>

lemma length_map_clock: "length (map_clock clock k p f xs) = length xs"
  by (induction xs arbitrary: k) auto

lemma map_clock_no_match: "\<forall>x\<in>set xs. \<not> p x \<Longrightarrow> map_clock clock k p f xs = xs"
  by (induction xs arbitrary: k) auto

lemma nth_map_clock:
  "j < length xs \<Longrightarrow>
   map_clock clock k p f xs ! j =
     (if p (xs ! j) then f (xs ! j) (clock (k + readings_before p j xs)) else xs ! j)"
proof (induction xs arbitrary: k j)
  case Nil
  then show ?case by simp
next
  case (Cons x xs)
  show ?case
  proof (cases j)
    case 0
    then show ?thesis by (simp add: readings_before_def)
  next
    case (Suc j')
    with Cons.prems have "j' < length xs" by simp
    from Cons.IH [OF this] Suc show ?thesis
      by (simp add: readings_before_def)
  qed
qed

lemma filter_no_match: "\<forall>x\<in>set xs. p x \<Longrightarrow> filter p xs = xs"
  by (induction xs) auto

section \<open>Lemmas about the derived view\<close>

lemma set_insert_js: "set (insert_js c x ys) = insert x (set ys)"
  by (induction ys) auto

lemma mset_insert_js: "mset (insert_js c x ys) = add_mset x (mset ys)"
  by (induction ys) auto

lemma mset_sort_js: "mset (sort_js c xs) = mset xs"
  by (induction xs) (auto simp: mset_insert_js)

lemma set_sort_js: "set (sort_js c xs) = set xs"
  by (induction xs) (auto simp: set_insert_js)

lemma length_sort_js: "length (sort_js c xs) = length xs"
  by (metis mset_sort_js size_mset)

lemma includes_s_iff: "includes_s s q \<longleftrightarrow> substring_of q s"
proof (induction s)
  case Nil
  then show ?case by (auto simp: substring_of_def)
next
  case (Cons c cs)
  have "substring_of q (c # cs) \<longleftrightarrow> take (length q) (c # cs) = q \<or> substring_of q cs"
  proof
    assume "substring_of q (c # cs)"
    then obtain pre post where e: "c # cs = pre @ q @ post" by (auto simp: substring_of_def)
    show "take (length q) (c # cs) = q \<or> substring_of q cs"
    proof (cases pre)
      case Nil
      with e show ?thesis by simp
    next
      case (Cons p ps)
      with e have "cs = ps @ q @ post" by simp
      then show ?thesis by (auto simp: substring_of_def)
    qed
  next
    assume "take (length q) (c # cs) = q \<or> substring_of q cs"
    then show "substring_of q (c # cs)"
    proof
      assume "take (length q) (c # cs) = q"
      then have "c # cs = [] @ q @ drop (length q) (c # cs)"
        by (metis append_Nil append_take_drop_id)
      then show ?thesis unfolding substring_of_def by blast
    next
      assume "substring_of q cs"
      then obtain pre post where "cs = pre @ q @ post" by (auto simp: substring_of_def)
      then have "c # cs = (c # pre) @ q @ post" by simp
      then show ?thesis unfolding substring_of_def by blast
    qed
  qed
  with Cons show ?case by simp
qed

lemma filterTodos_eq:
  "filterTodos toLowerCase state =
     filter (\<lambda>todo.
        (searchText (filter_s state) \<noteq> [] \<longrightarrow>
           matchesSearch toLowerCase (toLowerCase (searchText (filter_s state))) todo)
      \<and> (truthy (category_f (filter_s state)) \<longrightarrow> category todo = category_f (filter_s state))
      \<and> (priority_f (filter_s state) \<noteq> None \<longrightarrow> Some (priority todo) = priority_f (filter_s state))
      \<and> (\<not> showCompleted (filter_s state) \<longrightarrow> \<not> completed todo)) (todos state)"
  by (simp add: filterTodos_def Let_def conj_commute conj_left_commute)

lemma matchesSearch_iff:
  "matchesSearch toLowerCase q todo \<longleftrightarrow>
     substring_of q (toLowerCase (title todo))
     \<or> (\<exists>d. description todo = Some d \<and> substring_of q (toLowerCase d))"
  by (cases "description todo") (simp_all add: matchesSearch_def includes_s_iff)

text \<open>Where the comparator agrees with a key, the model of \<^verbatim>\<open>sort\<close> is the library's
  stable sort by that key.\<close>

lemma insert_js_insort_key:
  fixes f :: "'a \<Rightarrow> 'k::linorder"
  assumes "\<forall>y\<in>set ys. (sortCompare c x y \<le> 0) = (f x \<le> f y)"
  shows "insert_js c x ys = insort_key f x ys"
  using assms by (induction ys) simp_all

lemma sort_js_sort_key:
  fixes f :: "'a \<Rightarrow> 'k::linorder"
  assumes "\<forall>x\<in>set xs. \<forall>y\<in>set xs. (sortCompare c x y \<le> 0) = (f x \<le> f y)"
  shows "sort_js c xs = sort_key f xs"
  using assms
proof (induction xs)
  case Nil
  show ?case by simp
next
  case (Cons x xs)
  have ih: "sort_js c xs = sort_key f xs"
    using Cons.prems by (intro Cons.IH) simp
  have "\<forall>y\<in>set (sort_key f xs). (sortCompare c x y \<le> 0) = (f x \<le> f y)"
    using Cons.prems by simp
  then have "insert_js c x (sort_key f xs) = insort_key f x (sort_key f xs)"
    by (rule insert_js_insort_key)
  with ih show ?case by simp
qed

lemma compare_dueDate_dueKey:
  assumes "truthy (dueDate a) \<longrightarrow> dateTime getTime (dueDate a) \<noteq> None"
    and "truthy (dueDate b) \<longrightarrow> dateTime getTime (dueDate b) \<noteq> None"
  shows "(sortCompare (compareTodos getTime dueDate_key) a b \<le> 0) = (dueKey getTime a \<le> dueKey getTime b)"
proof (cases "completed a = completed b")
  case False
  then show ?thesis
    by (cases "completed a") (simp_all add: sortCompare_def compareTodos_def dueKey_def)
next
  case True
  show ?thesis
  proof (cases "truthy (dueDate a)")
    case ta: True
    with assms(1) obtain u where u: "dateTime getTime (dueDate a) = Some u" by auto
    show ?thesis
    proof (cases "truthy (dueDate b)")
      case tb: True
      with assms(2) obtain v where v: "dateTime getTime (dueDate b) = Some v" by auto
      from True ta tb u v show ?thesis
        by (simp add: sortCompare_def compareTodos_def dueKey_def dueTime_def minus_num_def)
    next
      case False
      with True ta show ?thesis
        by (simp add: sortCompare_def compareTodos_def dueKey_def dueTime_def)
    qed
  next
    case fa: False
    show ?thesis
    proof (cases "truthy (dueDate b)")
      case tb: True
      with True fa show ?thesis
        by (simp add: sortCompare_def compareTodos_def dueKey_def dueTime_def)
    next
      case False
      with True fa show ?thesis
        by (simp add: sortCompare_def compareTodos_def dueKey_def dueTime_def)
    qed
  qed
qed

lemma set_filterTodos_subset: "set (filterTodos toLowerCase state) \<subseteq> set (todos state)"
  unfolding filterTodos_eq by simp

lemma filter_filter_mem:
  "filter Q (filter P zs) = filter (\<lambda>t. Q t \<and> t \<in> set (filter P zs)) zs"
proof -
  have "filter Q (filter P zs) = filter (\<lambda>t. P t \<and> Q t) zs" by simp
  also have "\<dots> = filter (\<lambda>t. Q t \<and> t \<in> set (filter P zs)) zs"
    by (intro filter_cong) auto
  finally show ?thesis .
qed

lemma compare_viewKey:
  assumes "key = createdAt_key \<longrightarrow> getTime (createdAt a) \<noteq> None \<and> getTime (createdAt b) \<noteq> None"
    and "key = dueDate_key \<longrightarrow>
           (truthy (dueDate a) \<longrightarrow> dateTime getTime (dueDate a) \<noteq> None)
         \<and> (truthy (dueDate b) \<longrightarrow> dateTime getTime (dueDate b) \<noteq> None)"
  shows "(sortCompare (compareTodos getTime key) a b \<le> 0) = (viewKey getTime key a \<le> viewKey getTime key b)"
proof (cases key)
  case dueDate_key
  with assms(2) have "truthy (dueDate a) \<longrightarrow> dateTime getTime (dueDate a) \<noteq> None"
    and "truthy (dueDate b) \<longrightarrow> dateTime getTime (dueDate b) \<noteq> None"
    by blast+
  then have "(sortCompare (compareTodos getTime dueDate_key) a b \<le> 0)
      = (dueKey getTime a \<le> dueKey getTime b)"
    by (rule compare_dueDate_dueKey)
  with dueDate_key show ?thesis by (simp add: viewKey_def)
next
  case priority_key
  show ?thesis
  proof (cases "completed a = completed b")
    case True
    with priority_key show ?thesis
      by (simp add: sortCompare_def compareTodos_def viewKey_def)
  next
    case False
    with priority_key show ?thesis
      by (cases "completed a") (simp_all add: sortCompare_def compareTodos_def viewKey_def)
  qed
next
  case createdAt_key
  with assms(1) obtain u v where u: "getTime (createdAt a) = Some u"
    and v: "getTime (createdAt b) = Some v"
    by auto
  show ?thesis
  proof (cases "completed a = completed b")
    case True
    with createdAt_key u v show ?thesis
      by (simp add: sortCompare_def compareTodos_def viewKey_def minus_num_def)
  next
    case False
    with createdAt_key show ?thesis
      by (cases "completed a") (simp_all add: sortCompare_def compareTodos_def viewKey_def)
  qed
qed

text \<open>
  Where the dates the comparator reads are dates, the view is the stable sort of the
  filtered todos by the key: the one stable arrangement in the comparator's order,
  which is the list every conforming \<^verbatim>\<open>sort\<close> returns.
\<close>

lemma view_stable_sort:
  assumes "sortBy (filter_s state) = createdAt_key \<longrightarrow>
             (\<forall>todo\<in>set (filteredAndSortedTodos toLowerCase getTime state).
                getTime (createdAt todo) \<noteq> None)"
    and "sortBy (filter_s state) = dueDate_key \<longrightarrow>
             (\<forall>todo\<in>set (filteredAndSortedTodos toLowerCase getTime state).
                truthy (dueDate todo) \<longrightarrow> dateTime getTime (dueDate todo) \<noteq> None)"
  shows "filteredAndSortedTodos toLowerCase getTime state =
           sort_key (viewKey getTime (sortBy (filter_s state))) (filterTodos toLowerCase state)"
proof -
  let ?key = "sortBy (filter_s state)"
  let ?xs = "filterTodos toLowerCase state"
  have s: "set (filteredAndSortedTodos toLowerCase getTime state) = set ?xs"
    unfolding filteredAndSortedTodos_def by (rule set_sort_js)
  have "(sortCompare (compareTodos getTime ?key) x y \<le> 0) = (viewKey getTime ?key x \<le> viewKey getTime ?key y)"
    if "x \<in> set ?xs" "y \<in> set ?xs" for x y
  proof (rule compare_viewKey)
    show "?key = createdAt_key \<longrightarrow> getTime (createdAt x) \<noteq> None \<and> getTime (createdAt y) \<noteq> None"
      using assms(1) that unfolding s by blast
    show "?key = dueDate_key \<longrightarrow>
           (truthy (dueDate x) \<longrightarrow> dateTime getTime (dueDate x) \<noteq> None)
         \<and> (truthy (dueDate y) \<longrightarrow> dateTime getTime (dueDate y) \<noteq> None)"
      using assms(2) that unfolding s by blast
  qed
  then have "\<forall>x\<in>set ?xs. \<forall>y\<in>set ?xs.
      (sortCompare (compareTodos getTime ?key) x y \<le> 0) = (viewKey getTime ?key x \<le> viewKey getTime ?key y)"
    by blast
  then show ?thesis unfolding filteredAndSortedTodos_def by (rule sort_js_sort_key)
qed

lemma viewKey_completed: "fst (viewKey getTime key todo) = completed todo"
  by (cases key) (simp_all add: viewKey_def dueKey_def)

lemma sorted_key_partition:
  fixes f :: "'a \<Rightarrow> bool \<times> 'k::linorder"
  assumes "sorted (map f ys)" and "i < j" and "j < length ys" and "fst (f (ys ! i))"
  shows "fst (f (ys ! j))"
proof -
  have "map f ys ! i \<le> map f ys ! j"
    using assms(1-3) by (intro sorted_nth_mono) simp_all
  then have "f (ys ! i) \<le> f (ys ! j)" using assms(2,3) by simp
  then have "fst (f (ys ! i)) \<le> fst (f (ys ! j))"
    by (cases "f (ys ! i)"; cases "f (ys ! j)") auto
  with assms(4) show ?thesis by (simp add: le_bool_def)
qed

section \<open>Lemmas about the facade\<close>

lemma saves_after_init_Nil: "saves_after_init []"
  by (simp add: saves_after_init_def)

lemma saves_after_init_append_other:
  assumes "saves_after_init log" and "\<And>s. c \<noteq> SaveCall s"
  shows "saves_after_init (log @ [c])"
  unfolding saves_after_init_def
proof (intro allI impI)
  fix pre s post
  assume eq: "log @ [c] = pre @ SaveCall s # post"
  show "SetIsInitializedCall True \<in> set pre \<and> (\<exists>l. LoadCall l \<in> set pre)"
  proof (cases post rule: rev_cases)
    case Nil
    with eq have "c = SaveCall s" by simp
    with assms(2) show ?thesis by blast
  next
    case (snoc post' c')
    with eq have "log = pre @ SaveCall s # post'" by simp
    with assms(1) show ?thesis unfolding saves_after_init_def by blast
  qed
qed

lemma saves_after_init_append_save:
  assumes "saves_after_init log" and "SetIsInitializedCall True \<in> set log"
    and "\<exists>l. LoadCall l \<in> set log"
  shows "saves_after_init (log @ [SaveCall st])"
  unfolding saves_after_init_def
proof (intro allI impI)
  fix pre s post
  assume eq: "log @ [SaveCall st] = pre @ SaveCall s # post"
  show "SetIsInitializedCall True \<in> set pre \<and> (\<exists>l. LoadCall l \<in> set pre)"
  proof (cases post rule: rev_cases)
    case Nil
    with eq have "pre = log" by simp
    with assms(2,3) show ?thesis by blast
  next
    case (snoc post' c')
    with eq have "log = pre @ SaveCall s # post'" by simp
    with assms(1) show ?thesis unfolding saves_after_init_def by blast
  qed
qed

lemma saves_after_init_append_effect_save:
  assumes "saves_after_init log"
    and "b \<Longrightarrow> SetIsInitializedCall True \<in> set log"
    and "b \<Longrightarrow> \<exists>l. LoadCall l \<in> set log"
  shows "saves_after_init (log @ effect_save st b)"
proof (cases b)
  case True
  with assms have "saves_after_init (log @ [SaveCall st])"
    by (intro saves_after_init_append_save) blast+
  with True show ?thesis by (simp add: effect_save_def)
next
  case False
  with assms(1) show ?thesis by (simp add: effect_save_def)
qed

lemma isInitialized_after_load:
  "isInitialized (foldl (apply_update clock) p (snd (effect_load savedState)))"
  by (cases savedState) (simp_all add: effect_load_def)

lemma cur_state_after_load:
  "cur_state (foldl (apply_update clock) p (snd (effect_load savedState))) =
     (case savedState of None \<Rightarrow> cur_state p | Some s \<Rightarrow> s)"
  by (cases savedState) (simp_all add: effect_load_def)

lemma calls_Mounted:
  "calls (facade_step p (Mounted clock savedState)) =
     calls p @ [LoadCall savedState, SetIsInitializedCall True]
       @ effect_save (cur_state p) (isInitialized p)
       @ [SaveCall (case savedState of None \<Rightarrow> cur_state p | Some s \<Rightarrow> s)]"
  using isInitialized_after_load [of clock p savedState] cur_state_after_load [of clock p savedState]
  by (simp add: Let_def effect_save_def effect_load_def)

lemma isInitialized_Mounted: "isInitialized (facade_step p (Mounted clock savedState))"
  using isInitialized_after_load [of clock p savedState] by (simp add: Let_def)

lemma calls_Dispatched:
  "calls (facade_step p (Dispatched clock action)) =
     calls p @ effect_save (todoReducer clock (cur_state p) action) (isInitialized p)"
  by (simp add: Let_def)

lemma isInitialized_Dispatched:
  "isInitialized (facade_step p (Dispatched clock action)) = isInitialized p"
  by (simp add: Let_def)

lemma facade_inv_step:
  assumes "facade_inv p"
  shows "facade_inv (facade_step p e)"
proof (cases e)
  case (Mounted clock savedState)
  let ?l1 = "calls p @ [LoadCall savedState]"
  let ?l2 = "?l1 @ [SetIsInitializedCall True]"
  let ?l3 = "?l2 @ effect_save (cur_state p) (isInitialized p)"
  let ?st = "case savedState of None \<Rightarrow> cur_state p | Some s \<Rightarrow> s"
  have g0: "saves_after_init (calls p)" using assms by (simp add: facade_inv_def)
  have g1: "saves_after_init ?l1" using g0 by (rule saves_after_init_append_other) simp
  have g2: "saves_after_init ?l2" using g1 by (rule saves_after_init_append_other) simp
  have m2: "SetIsInitializedCall True \<in> set ?l2" "\<exists>l. LoadCall l \<in> set ?l2"
    by auto
  have g3: "saves_after_init ?l3"
    using g2 m2 by (intro saves_after_init_append_effect_save) blast+
  have m3: "SetIsInitializedCall True \<in> set ?l3" "\<exists>l. LoadCall l \<in> set ?l3"
    by auto
  have g4: "saves_after_init (?l3 @ [SaveCall ?st])"
    using g3 m3 by (rule saves_after_init_append_save)
  have c: "calls (facade_step p e) = ?l3 @ [SaveCall ?st]"
    unfolding Mounted calls_Mounted by simp
  have i: "isInitialized (facade_step p e)"
    unfolding Mounted by (rule isInitialized_Mounted)
  have m4: "SetIsInitializedCall True \<in> set (?l3 @ [SaveCall ?st])"
    "\<exists>l. LoadCall l \<in> set (?l3 @ [SaveCall ?st])"
    by auto
  show ?thesis unfolding facade_inv_def c using i g4 m4 by blast
next
  case (Dispatched clock action)
  let ?st = "todoReducer clock (cur_state p) action"
  have c: "calls (facade_step p e) = calls p @ effect_save ?st (isInitialized p)"
    unfolding Dispatched by (rule calls_Dispatched)
  have i: "isInitialized (facade_step p e) = isInitialized p"
    unfolding Dispatched by (rule isInitialized_Dispatched)
  show ?thesis
  proof (cases "isInitialized p")
    case True
    with assms have m: "SetIsInitializedCall True \<in> set (calls p)" "\<exists>l. LoadCall l \<in> set (calls p)"
      and g: "saves_after_init (calls p)"
      unfolding facade_inv_def by blast+
    have g': "saves_after_init (calls p @ [SaveCall ?st])"
      using g m by (rule saves_after_init_append_save)
    have c': "calls (facade_step p e) = calls p @ [SaveCall ?st]"
      using c True by (simp add: effect_save_def)
    have m': "SetIsInitializedCall True \<in> set (calls p @ [SaveCall ?st])"
      "\<exists>l. LoadCall l \<in> set (calls p @ [SaveCall ?st])"
      using m by auto
    show ?thesis unfolding facade_inv_def c' using i True g' m' by blast
  next
    case False
    have c': "calls (facade_step p e) = calls p"
      using c False by (simp add: effect_save_def)
    show ?thesis using assms i False unfolding facade_inv_def c' by blast
  qed
qed

lemma facade_inv_foldl: "facade_inv p \<Longrightarrow> facade_inv (foldl facade_step p es)"
  by (induction es arbitrary: p) (simp_all add: facade_inv_step)

lemma facade_inv_provider0: "facade_inv provider0"
  by (simp add: facade_inv_def provider0_def saves_after_init_Nil)

lemma calls_step_append: "\<exists>cs. calls (facade_step p e) = calls p @ cs"
proof (cases e)
  case (Mounted clock savedState)
  then show ?thesis using calls_Mounted [of p clock savedState] by simp
next
  case (Dispatched clock action)
  then show ?thesis using calls_Dispatched [of p clock action] by simp
qed

lemma calls_foldl_append: "\<exists>cs. calls (foldl facade_step p es) = calls p @ cs"
proof (induction es arbitrary: p)
  case Nil
  show ?case by simp
next
  case (Cons e es)
  obtain c1 where c1: "calls (facade_step p e) = calls p @ c1"
    using calls_step_append by blast
  obtain c2 where c2: "calls (foldl facade_step (facade_step p e) es) = calls (facade_step p e) @ c2"
    using Cons.IH by blast
  have "calls (foldl facade_step p (e # es)) = calls p @ (c1 @ c2)"
    using c1 c2 by simp
  then show ?case by blast
qed

lemma first_save_append: "first_save cs = Some s \<Longrightarrow> first_save (cs @ ds) = Some s"
  by (induction cs rule: first_save.induct) simp_all

lemma dispatches_before_mount:
  assumes "\<not> isInitialized p" and "\<forall>e\<in>set ds. \<exists>clock action. e = Dispatched clock action"
  shows "\<not> isInitialized (foldl facade_step p ds) \<and> calls (foldl facade_step p ds) = calls p"
  using assms
proof (induction ds arbitrary: p)
  case Nil
  then show ?case by simp
next
  case (Cons d ds)
  from Cons.prems(2) obtain clock action where d: "d = Dispatched clock action" by auto
  have i: "\<not> isInitialized (facade_step p d)"
    unfolding d isInitialized_Dispatched by (rule Cons.prems(1))
  have c: "calls (facade_step p d) = calls p"
    unfolding d calls_Dispatched using Cons.prems(1) by (simp add: effect_save_def)
  have r: "\<forall>e\<in>set ds. \<exists>clock action. e = Dispatched clock action"
    using Cons.prems(2) by simp
  from Cons.IH [OF i r] c show ?case by simp
qed

section \<open>Lemmas about the reducer on objects\<close>

lemma rd_append: "rd h a = Some v \<Longrightarrow> rd (h @ ext) a = Some v"
  by (auto simp: rd_def nth_append split: if_splits)

lemma rd_alloc: "rd (h @ [v]) (length h) = Some v"
  by (simp add: rd_def)

lemma get_state_append: "get_state h a = Some v \<Longrightarrow> get_state (h @ ext) a = Some v"
  by (auto simp: get_state_def rd_append split: option.splits obj.splits)

lemma get_array_append: "get_array h a = Some v \<Longrightarrow> get_array (h @ ext) a = Some v"
  by (auto simp: get_array_def rd_append split: option.splits obj.splits)

lemma get_todo_append: "get_todo h a = Some v \<Longrightarrow> get_todo (h @ ext) a = Some v"
  by (auto simp: get_todo_def rd_append split: option.splits obj.splits)

lemma get_category_append: "get_category h a = Some v \<Longrightarrow> get_category (h @ ext) a = Some v"
  by (auto simp: get_category_def rd_append split: option.splits obj.splits)

lemma get_filter_append: "get_filter h a = Some v \<Longrightarrow> get_filter (h @ ext) a = Some v"
  by (auto simp: get_filter_def rd_append split: option.splits obj.splits)

lemma read_all_append:
  assumes "\<And>a v. get h a = Some v \<Longrightarrow> get (h @ ext) a = Some v"
    and "read_all get h rs = Some vs"
  shows "read_all get (h @ ext) rs = Some vs"
  using assms(2)
proof (induction rs arbitrary: vs)
  case Nil
  then show ?case by simp
next
  case (Cons r rs)
  from Cons.prems obtain v vs' where v: "get h r = Some v" and vs': "read_all get h rs = Some vs'"
    and e: "vs = v # vs'"
    by (auto split: option.splits)
  from assms(1) [OF v] Cons.IH [OF vs'] e show ?case by simp
qed

lemma read_all_todo_append:
  "read_all get_todo h rs = Some vs \<Longrightarrow> read_all get_todo (h @ ext) rs = Some vs"
  using get_todo_append by (rule read_all_append)

lemma read_all_category_append:
  "read_all get_category h rs = Some vs \<Longrightarrow> read_all get_category (h @ ext) rs = Some vs"
  using get_category_append by (rule read_all_append)

lemma read_all_snoc:
  assumes "read_all get h rs = Some vs" and "get h r = Some v"
  shows "read_all get h (rs @ [r]) = Some (vs @ [v])"
  using assms(1)
proof (induction rs arbitrary: vs)
  case Nil
  with assms(2) show ?case by simp
next
  case (Cons r' rs)
  from Cons.prems obtain v' vs' where "get h r' = Some v'" "read_all get h rs = Some vs'"
    "vs = v' # vs'"
    by (auto split: option.splits)
  with Cons.IH [of vs'] show ?case by simp
qed

lemma state_at_parts:
  assumes "state_at h a = Some S"
  shows "\<exists>t c f trs crs. get_state h a = Some (t, c, f)
      \<and> get_array h t = Some trs \<and> read_all get_todo h trs = Some (todos S)
      \<and> get_array h c = Some crs \<and> read_all get_category h crs = Some (categories S)
      \<and> get_filter h f = Some (filter_s S)"
  using assms by (auto simp: state_at_def split: option.splits)

lemma state_at_from_parts:
  assumes "get_state h a = Some (t, c, f)"
    and "get_array h t = Some trs" and "read_all get_todo h trs = Some ts"
    and "get_array h c = Some crs" and "read_all get_category h crs = Some cs"
    and "get_filter h f = Some fl"
  shows "state_at h a = Some \<lparr> todos = ts, categories = cs, filter_s = fl \<rparr>"
  using assms by (simp add: state_at_def)

lemma state_at_append:
  assumes "state_at h a = Some S"
  shows "state_at (h @ ext) a = Some S"
proof -
  from state_at_parts [OF assms] obtain t c f trs crs where
    p: "get_state h a = Some (t, c, f)" "get_array h t = Some trs"
      "read_all get_todo h trs = Some (todos S)" "get_array h c = Some crs"
      "read_all get_category h crs = Some (categories S)" "get_filter h f = Some (filter_s S)"
    by blast
  have "state_at (h @ ext) a = Some \<lparr> todos = todos S, categories = categories S, filter_s = filter_s S \<rparr>"
    using get_state_append [OF p(1)] get_array_append [OF p(2)] read_all_todo_append [OF p(3)]
      get_array_append [OF p(4)] read_all_category_append [OF p(5)] get_filter_append [OF p(6)]
    by (rule state_at_from_parts)
  then show ?thesis by simp
qed

lemma map_refs_correct:
  assumes "read_all get_todo h rs = Some ts"
  shows "\<exists>ext rs'. map_refs clock k p f h rs = Some (h @ ext, rs')
      \<and> read_all get_todo (h @ ext) rs' = Some (map_clock clock k p f ts)"
  using assms
proof (induction rs arbitrary: h k ts)
  case Nil
  then have "map_refs clock k p f h [] = Some (h @ [], [])
      \<and> read_all get_todo (h @ []) [] = Some (map_clock clock k p f ts)"
    by simp
  then show ?case by blast
next
  case (Cons r rs)
  from Cons.prems obtain todo ts' where r: "get_todo h r = Some todo"
    and rs: "read_all get_todo h rs = Some ts'" and ts: "ts = todo # ts'"
    by (auto split: option.splits)
  show ?case
  proof (cases "p todo")
    case True
    let ?new = "TodoObj (f todo (clock k))"
    let ?h1 = "h @ [?new]"
    have rs1: "read_all get_todo ?h1 rs = Some ts'" using rs by (rule read_all_todo_append)
    from Cons.IH [OF rs1, of "Suc k"] obtain ext rs' where
      m: "map_refs clock (Suc k) p f ?h1 rs = Some (?h1 @ ext, rs')"
      and a: "read_all get_todo (?h1 @ ext) rs' = Some (map_clock clock (Suc k) p f ts')"
      by blast
    have "get_todo ?h1 (length h) = Some (f todo (clock k))"
      by (simp add: get_todo_def rd_alloc)
    then have n: "get_todo (?h1 @ ext) (length h) = Some (f todo (clock k))"
      by (rule get_todo_append)
    have "map_refs clock k p f h (r # rs) = Some (h @ (?new # ext), length h # rs')"
      using r True m by (simp add: alloc_def)
    moreover have "read_all get_todo (h @ (?new # ext)) (length h # rs')
        = Some (map_clock clock k p f ts)"
      using n a True ts by simp
    ultimately show ?thesis by blast
  next
    case False
    from Cons.IH [OF rs, of k] obtain ext rs' where
      m: "map_refs clock k p f h rs = Some (h @ ext, rs')"
      and a: "read_all get_todo (h @ ext) rs' = Some (map_clock clock k p f ts')"
      by blast
    have n: "get_todo (h @ ext) r = Some todo" using r by (rule get_todo_append)
    have "map_refs clock k p f h (r # rs) = Some (h @ ext, r # rs')"
      using r False m by simp
    moreover have "read_all get_todo (h @ ext) (r # rs') = Some (map_clock clock k p f ts)"
      using n a False ts by simp
    ultimately show ?thesis by blast
  qed
qed

lemma filter_refs_correct:
  assumes "read_all get h rs = Some vs"
  shows "\<exists>rs'. filter_refs get p h rs = Some rs' \<and> read_all get h rs' = Some (filter p vs)"
  using assms
proof (induction rs arbitrary: vs)
  case Nil
  then show ?case by simp
next
  case (Cons r rs)
  from Cons.prems obtain v vs' where r: "get h r = Some v"
    and rs: "read_all get h rs = Some vs'" and vs: "vs = v # vs'"
    by (auto split: option.splits)
  from Cons.IH [OF rs] obtain rs' where
    "filter_refs get p h rs = Some rs'" "read_all get h rs' = Some (filter p vs')"
    by blast
  with r vs show ?case by simp
qed

lemma get_state_alloc:
  "get_state (h @ [StateObj t c f]) (length h) = Some (t, c, f)"
  by (simp add: get_state_def rd_alloc)

lemma get_array_alloc: "get_array (h @ [ArrayObj rs]) (length h) = Some rs"
  by (simp add: get_array_def rd_alloc)

lemma get_filter_alloc: "get_filter (h @ [FilterObj fl]) (length h) = Some fl"
  by (simp add: get_filter_def rd_alloc)

text \<open>The state read at a newly allocated state object that shares two of the three
  parts of an old one.\<close>

lemma replace_todos:
  assumes S: "state_at h st = Some S" and g: "get_state h st = Some (t, c, f)"
    and ts: "read_all get_todo (h @ ext) rs = Some ts"
  shows "state_at (((h @ ext) @ [ArrayObj rs]) @ [StateObj (length (h @ ext)) c f])
           (Suc (length (h @ ext))) = Some (S\<lparr> todos := ts \<rparr>)"
proof -
  let ?h1 = "h @ ext"
  let ?h2 = "?h1 @ [ArrayObj rs]"
  let ?h3 = "?h2 @ [StateObj (length ?h1) c f]"
  from state_at_parts [OF S] g obtain trs crs where
    p: "get_array h c = Some crs" "read_all get_category h crs = Some (categories S)"
      "get_filter h f = Some (filter_s S)"
    by auto
  have 1: "get_state ?h3 (Suc (length ?h1)) = Some (length ?h1, c, f)"
    using get_state_alloc [of ?h2 "length ?h1" c f] by simp
  have 2: "get_array ?h3 (length ?h1) = Some rs"
    using get_array_alloc [of ?h1 rs] by (rule get_array_append)
  have 3: "read_all get_todo ?h3 rs = Some ts"
    using read_all_todo_append [OF read_all_todo_append [OF ts]] .
  have 4: "get_array ?h3 c = Some crs"
    using get_array_append [OF get_array_append [OF get_array_append [OF p(1)]]] .
  have 5: "read_all get_category ?h3 crs = Some (categories S)"
    using read_all_category_append [OF read_all_category_append [OF read_all_category_append [OF p(2)]]] .
  have 6: "get_filter ?h3 f = Some (filter_s S)"
    using get_filter_append [OF get_filter_append [OF get_filter_append [OF p(3)]]] .
  have "state_at ?h3 (Suc (length ?h1)) =
      Some \<lparr> todos = ts, categories = categories S, filter_s = filter_s S \<rparr>"
    using 1 2 3 4 5 6 by (rule state_at_from_parts)
  then show ?thesis by simp
qed

lemma replace_categories:
  assumes S: "state_at h st = Some S" and g: "get_state h st = Some (t, c, f)"
    and cs: "read_all get_category h rs = Some cs"
  shows "state_at ((h @ [ArrayObj rs]) @ [StateObj t (length h) f])
           (Suc (length h)) = Some (S\<lparr> categories := cs \<rparr>)"
proof -
  let ?h2 = "h @ [ArrayObj rs]"
  let ?h3 = "?h2 @ [StateObj t (length h) f]"
  from state_at_parts [OF S] g obtain trs where
    p: "get_array h t = Some trs" "read_all get_todo h trs = Some (todos S)"
      "get_filter h f = Some (filter_s S)"
    by auto
  have 1: "get_state ?h3 (Suc (length h)) = Some (t, length h, f)"
    using get_state_alloc [of ?h2 t "length h" f] by simp
  have 2: "get_array ?h3 t = Some trs"
    using get_array_append [OF get_array_append [OF p(1)]] .
  have 3: "read_all get_todo ?h3 trs = Some (todos S)"
    using read_all_todo_append [OF read_all_todo_append [OF p(2)]] .
  have 4: "get_array ?h3 (length h) = Some rs"
    using get_array_alloc [of h rs] by (rule get_array_append)
  have 5: "read_all get_category ?h3 rs = Some cs"
    using read_all_category_append [OF read_all_category_append [OF cs]] .
  have 6: "get_filter ?h3 f = Some (filter_s S)"
    using get_filter_append [OF get_filter_append [OF p(3)]] .
  have "state_at ?h3 (Suc (length h)) =
      Some \<lparr> todos = todos S, categories = cs, filter_s = filter_s S \<rparr>"
    using 1 2 3 4 5 6 by (rule state_at_from_parts)
  then show ?thesis by simp
qed

lemma replace_filter:
  assumes S: "state_at h st = Some S" and g: "get_state h st = Some (t, c, f)"
  shows "state_at ((h @ [FilterObj fl]) @ [StateObj t c (length h)])
           (Suc (length h)) = Some (S\<lparr> filter_s := fl \<rparr>)"
proof -
  let ?h2 = "h @ [FilterObj fl]"
  let ?h3 = "?h2 @ [StateObj t c (length h)]"
  from state_at_parts [OF S] g obtain trs crs where
    p: "get_array h t = Some trs" "read_all get_todo h trs = Some (todos S)"
      "get_array h c = Some crs" "read_all get_category h crs = Some (categories S)"
    by auto
  have 1: "get_state ?h3 (Suc (length h)) = Some (t, c, length h)"
    using get_state_alloc [of ?h2 t c "length h"] by simp
  have 2: "get_array ?h3 t = Some trs"
    using get_array_append [OF get_array_append [OF p(1)]] .
  have 3: "read_all get_todo ?h3 trs = Some (todos S)"
    using read_all_todo_append [OF read_all_todo_append [OF p(2)]] .
  have 4: "get_array ?h3 c = Some crs"
    using get_array_append [OF get_array_append [OF p(3)]] .
  have 5: "read_all get_category ?h3 crs = Some (categories S)"
    using read_all_category_append [OF read_all_category_append [OF p(4)]] .
  have 6: "get_filter ?h3 (length h) = Some fl"
    using get_filter_alloc [of h fl] by (rule get_filter_append)
  have "state_at ?h3 (Suc (length h)) =
      Some \<lparr> todos = todos S, categories = categories S, filter_s = fl \<rparr>"
    using 1 2 3 4 5 6 by (rule state_at_from_parts)
  then show ?thesis by simp
qed

text \<open>
  The reducer on objects returns, extends the heap without touching what was
  allocated, and the state at the reference it returns is the value the reducer on
  values computes.
\<close>

lemma todoReducer_ref_result:
  assumes S: "state_at h st = Some S" and A: "action_at h act = Some A"
  shows "\<exists>ext r. todoReducer_ref clock h st act = Some (h @ ext, r)
      \<and> state_at (h @ ext) r = Some (todoReducer clock S A)"
proof -
  from state_at_parts [OF S] obtain t c f trs crs where
    g: "get_state h st = Some (t, c, f)"
    and p: "get_array h t = Some trs" "read_all get_todo h trs = Some (todos S)"
      "get_array h c = Some crs" "read_all get_category h crs = Some (categories S)"
      "get_filter h f = Some (filter_s S)"
    by blast
  show ?thesis
  proof (cases act)
    case (ADD_TODO_ref payload)
    with A obtain todo where todo: "get_todo h payload = Some todo" and a: "A = ADD_TODO todo"
      by auto
    have ts: "read_all get_todo (h @ []) (trs @ [payload]) = Some (todos S @ [todo])"
      using read_all_snoc [OF p(2) todo] by simp
    have "todoReducer_ref clock h st act =
        Some (h @ [ArrayObj (trs @ [payload]), StateObj (length h) c f], Suc (length h))"
      using g p(1) by (simp add: ADD_TODO_ref alloc_def)
    moreover have "state_at (h @ [ArrayObj (trs @ [payload]), StateObj (length h) c f]) (Suc (length h))
        = Some (todoReducer clock S A)"
      using replace_todos [OF S g ts] by (simp add: a)
    ultimately show ?thesis by blast
  next
    case (UPDATE_TODO_ref i updates)
    with A have a: "A = UPDATE_TODO i updates" by simp
    from map_refs_correct [OF p(2), of clock 0 "\<lambda>todo. id_t todo = i" "update_todo updates"]
    obtain ext rs' where
      m: "map_refs clock 0 (\<lambda>todo. id_t todo = i) (update_todo updates) h trs = Some (h @ ext, rs')"
      and r: "read_all get_todo (h @ ext) rs'
          = Some (map_clock clock 0 (\<lambda>todo. id_t todo = i) (update_todo updates) (todos S))"
      by blast
    have "todoReducer_ref clock h st act =
        Some (h @ (ext @ [ArrayObj rs', StateObj (length (h @ ext)) c f]), Suc (length (h @ ext)))"
      using g p(1) m by (simp add: UPDATE_TODO_ref alloc_def)
    moreover have "state_at (h @ (ext @ [ArrayObj rs', StateObj (length (h @ ext)) c f]))
        (Suc (length (h @ ext))) = Some (todoReducer clock S A)"
      using replace_todos [OF S g r] by (simp add: a)
    ultimately show ?thesis by blast
  next
    case (DELETE_TODO_ref payload)
    with A have a: "A = DELETE_TODO payload" by simp
    from filter_refs_correct [OF p(2), of "\<lambda>todo. id_t todo \<noteq> payload"]
    obtain rs' where
      m: "filter_refs get_todo (\<lambda>todo. id_t todo \<noteq> payload) h trs = Some rs'"
      and r: "read_all get_todo h rs' = Some (filter (\<lambda>todo. id_t todo \<noteq> payload) (todos S))"
      by blast
    from r have r': "read_all get_todo (h @ []) rs'
        = Some (filter (\<lambda>todo. id_t todo \<noteq> payload) (todos S))"
      by simp
    have "todoReducer_ref clock h st act =
        Some (h @ [ArrayObj rs', StateObj (length h) c f], Suc (length h))"
      using g p(1) m by (simp add: DELETE_TODO_ref alloc_def)
    moreover have "state_at (h @ [ArrayObj rs', StateObj (length h) c f]) (Suc (length h))
        = Some (todoReducer clock S A)"
      using replace_todos [OF S g r'] by (simp add: a)
    ultimately show ?thesis by blast
  next
    case (TOGGLE_TODO_ref payload)
    with A have a: "A = TOGGLE_TODO payload" by simp
    from map_refs_correct [OF p(2), of clock 0 "\<lambda>todo. id_t todo = payload" toggle_todo]
    obtain ext rs' where
      m: "map_refs clock 0 (\<lambda>todo. id_t todo = payload) toggle_todo h trs = Some (h @ ext, rs')"
      and r: "read_all get_todo (h @ ext) rs'
          = Some (map_clock clock 0 (\<lambda>todo. id_t todo = payload) toggle_todo (todos S))"
      by blast
    have "todoReducer_ref clock h st act =
        Some (h @ (ext @ [ArrayObj rs', StateObj (length (h @ ext)) c f]), Suc (length (h @ ext)))"
      using g p(1) m by (simp add: TOGGLE_TODO_ref alloc_def)
    moreover have "state_at (h @ (ext @ [ArrayObj rs', StateObj (length (h @ ext)) c f]))
        (Suc (length (h @ ext))) = Some (todoReducer clock S A)"
      using replace_todos [OF S g r] by (simp add: a)
    ultimately show ?thesis by blast
  next
    case (ADD_CATEGORY_ref payload)
    with A obtain cat where cat: "get_category h payload = Some cat" and a: "A = ADD_CATEGORY cat"
      by auto
    have cs: "read_all get_category h (crs @ [payload]) = Some (categories S @ [cat])"
      using p(4) cat by (rule read_all_snoc)
    have "todoReducer_ref clock h st act =
        Some (h @ [ArrayObj (crs @ [payload]), StateObj t (length h) f], Suc (length h))"
      using g p(3) by (simp add: ADD_CATEGORY_ref alloc_def)
    moreover have "state_at (h @ [ArrayObj (crs @ [payload]), StateObj t (length h) f]) (Suc (length h))
        = Some (todoReducer clock S A)"
      using replace_categories [OF S g cs] by (simp add: a)
    ultimately show ?thesis by blast
  next
    case (DELETE_CATEGORY_ref payload)
    with A have a: "A = DELETE_CATEGORY payload" by simp
    from filter_refs_correct [OF p(4), of "\<lambda>cat. id_c cat \<noteq> payload"]
    obtain rs' where
      m: "filter_refs get_category (\<lambda>cat. id_c cat \<noteq> payload) h crs = Some rs'"
      and r: "read_all get_category h rs' = Some (filter (\<lambda>cat. id_c cat \<noteq> payload) (categories S))"
      by blast
    have "todoReducer_ref clock h st act =
        Some (h @ [ArrayObj rs', StateObj t (length h) f], Suc (length h))"
      using g p(3) m by (simp add: DELETE_CATEGORY_ref alloc_def)
    moreover have "state_at (h @ [ArrayObj rs', StateObj t (length h) f]) (Suc (length h))
        = Some (todoReducer clock S A)"
      using replace_categories [OF S g r] by (simp add: a)
    ultimately show ?thesis by blast
  next
    case (SET_FILTER_ref payload)
    with A have a: "A = SET_FILTER payload" by simp
    let ?fl = "spread_filter (filter_s S) payload"
    have "todoReducer_ref clock h st act =
        Some (h @ [FilterObj ?fl, StateObj t c (length h)], Suc (length h))"
      using g p(5) by (simp add: SET_FILTER_ref alloc_def)
    moreover have "state_at (h @ [FilterObj ?fl, StateObj t c (length h)]) (Suc (length h))
        = Some (todoReducer clock S A)"
      using replace_filter [OF S g, of ?fl] by (simp add: a)
    ultimately show ?thesis by blast
  next
    case (LOAD_STATE_ref payload)
    with A obtain L where l: "state_at h payload = Some L" and a: "A = LOAD_STATE L"
      by auto
    have "todoReducer_ref clock h st act = Some (h @ [], payload)"
      by (simp add: LOAD_STATE_ref)
    moreover have "state_at (h @ []) payload = Some (todoReducer clock S A)"
      using l by (simp add: a)
    ultimately show ?thesis by blast
  next
    case UNKNOWN_ACTION_ref
    with A have a: "A = UNKNOWN_ACTION" by simp
    have "todoReducer_ref clock h st act = Some (h @ [], st)"
      by (simp add: UNKNOWN_ACTION_ref)
    moreover have "state_at (h @ []) st = Some (todoReducer clock S A)"
      using S by (simp add: a)
    ultimately show ?thesis by blast
  qed
qed

text \<open>The reducer's result depends on the clock through the readings it makes only.\<close>

lemma map_clock_cong_clock:
  assumes "\<forall>j<length (filter p xs). clock1 (k + j) = clock2 (k + j)"
  shows "map_clock clock1 k p f xs = map_clock clock2 k p f xs"
  using assms
proof (induction xs arbitrary: k)
  case Nil
  show ?case by simp
next
  case (Cons x xs)
  show ?case
  proof (cases "p x")
    case True
    from Cons.prems True have 0: "clock1 k = clock2 k" by auto
    have "\<forall>j<length (filter p xs). clock1 (Suc k + j) = clock2 (Suc k + j)"
    proof (intro allI impI)
      fix j assume "j < length (filter p xs)"
      with True have "Suc j < length (filter p (x # xs))" by simp
      with Cons.prems have "clock1 (k + Suc j) = clock2 (k + Suc j)" by blast
      then show "clock1 (Suc k + j) = clock2 (Suc k + j)" by simp
    qed
    from Cons.IH [OF this] True 0 show ?thesis by simp
  next
    case False
    with Cons.prems have "\<forall>j<length (filter p xs). clock1 (k + j) = clock2 (k + j)" by simp
    from Cons.IH [OF this] False show ?thesis by simp
  qed
qed

section \<open>Properties of the reducer\<close>

text \<open>
  C8. No-op laws on lookup misses: when the id matches no todo of the state, Update
  Todo, Delete Todo and Toggle Todo each return a state equal to the input state
  (todos, categories and filter all unchanged), whatever the clock reads.
\<close>

theorem C8_noop_on_lookup_miss:
  assumes "\<forall>todo\<in>set (todos state). id_t todo \<noteq> i"
  shows "todoReducer clock state (UPDATE_TODO i updates) = state
       \<and> todoReducer clock state (DELETE_TODO i) = state
       \<and> todoReducer clock state (TOGGLE_TODO i) = state"
  using assms by (simp add: map_clock_no_match filter_no_match)

theorem C8_noop_witness:
  "todoReducer (clock_at ''2025-01-15T12:00:00.000Z'') state1
       (UPDATE_TODO ''non-existent'' (no_updates\<lparr> p_title := Some ''Updated'' \<rparr>)) = state1
   \<and> todoReducer (clock_at ''2025-01-15T12:00:00.000Z'') state1 (DELETE_TODO ''non-existent'') = state1
   \<and> todoReducer (clock_at ''2025-01-15T12:00:00.000Z'') state1 (TOGGLE_TODO ''non-existent'') = state1"
  using C8_noop_on_lookup_miss [of state1 "''non-existent''"]
  by (simp add: state1_def todo1_def)


text \<open>
  C9. Update Todo stamps every matched todo: the \<open>updatedAt\<close> of a todo whose id
  matches is, in the result, the clock value read for it while the reducer ran (the
  reading numbered by the matching todos before it; the only reading when ids are
  unique). The payload is arbitrary: it may be empty, and an \<open>updatedAt\<close> key in it
  is overridden, the stamp being written after the merge. Under a clock that shows
  \<open>now\<close> throughout the invocation the stamp is \<open>now\<close>.
\<close>

theorem C9_update_refreshes_updatedAt:
  assumes "k < length (todos state)" and "id_t (todos state ! k) = i"
  shows "updatedAt (todos (todoReducer clock state (UPDATE_TODO i updates)) ! k) =
           clock (readings_before (\<lambda>todo. id_t todo = i) k (todos state))
       \<and> updatedAt (todos (todoReducer (clock_at now) state (UPDATE_TODO i updates)) ! k) = now"
  using assms by (simp add: nth_map_clock update_todo_def clock_at_def)

theorem C9_update_refreshes_witness:
  "0 < length (todos state1) \<and> id_t (todos state1 ! 0) = ''1''
   \<and> updatedAt (todos (todoReducer (clock_at ''2025-01-15T12:00:00.000Z'') state1
        (UPDATE_TODO ''1'' no_updates)) ! 0) = ''2025-01-15T12:00:00.000Z''
   \<and> updatedAt (todos (todoReducer (clock_at ''2025-01-15T12:00:00.000Z'') state1
        (UPDATE_TODO ''1'' (no_updates\<lparr> p_updatedAt := Some ''1999-12-31T00:00:00.000Z'' \<rparr>))) ! 0)
       = ''2025-01-15T12:00:00.000Z''"
proof -
  have h: "0 < length (todos state1)" "id_t (todos state1 ! 0) = ''1''"
    by (simp_all add: state1_def todo1_def)
  from C9_update_refreshes_updatedAt [OF h, of "clock_at ''2025-01-15T12:00:00.000Z''" no_updates
      "''2025-01-15T12:00:00.000Z''"]
    C9_update_refreshes_updatedAt [OF h, of "clock_at ''2025-01-15T12:00:00.000Z''"
      "no_updates\<lparr> p_updatedAt := Some ''1999-12-31T00:00:00.000Z'' \<rparr>" "''2025-01-15T12:00:00.000Z''"]
    h
  show ?thesis by blast
qed


text \<open>
  C10. The id-keyed operations act on every match. Delete Todo leaves no todo with
  the id; Update Todo keeps the length of the list and replaces every todo with the id,
  at its position, by the merge of the payload into it, stamped with the clock value
  read for it; Toggle Todo flips \<open>completed\<close> of every todo with the id and stamps it
  likewise; Delete Category leaves no category with the id.
\<close>

theorem C10_every_match:
  "(\<forall>todo\<in>set (todos (todoReducer clock state (DELETE_TODO i))). id_t todo \<noteq> i)
   \<and> length (todos (todoReducer clock state (UPDATE_TODO i updates))) = length (todos state)
   \<and> (\<forall>k<length (todos state). id_t (todos state ! k) = i \<longrightarrow>
           todos (todoReducer clock state (UPDATE_TODO i updates)) ! k =
             (spread_todo (todos state ! k) updates)
               \<lparr> updatedAt := clock (readings_before (\<lambda>todo. id_t todo = i) k (todos state)) \<rparr>)
   \<and> length (todos (todoReducer clock state (TOGGLE_TODO i))) = length (todos state)
   \<and> (\<forall>k<length (todos state). id_t (todos state ! k) = i \<longrightarrow>
           todos (todoReducer clock state (TOGGLE_TODO i)) ! k =
             (todos state ! k)
               \<lparr> completed := \<not> completed (todos state ! k),
                 updatedAt := clock (readings_before (\<lambda>todo. id_t todo = i) k (todos state)) \<rparr>)
   \<and> (\<forall>cat\<in>set (categories (todoReducer clock state (DELETE_CATEGORY i))). id_c cat \<noteq> i)"
  by (simp add: length_map_clock nth_map_clock update_todo_def toggle_todo_def)

theorem C10_every_match_witness:
  "todos (todoReducer clock_two state_dup (DELETE_TODO ''1'')) = []
   \<and> todos (todoReducer clock_two state_dup (UPDATE_TODO ''1'' (no_updates\<lparr> p_title := Some ''Updated'' \<rparr>)))
       = [todo1\<lparr> title := ''Updated'', updatedAt := ''2025-01-15T12:00:00.000Z'' \<rparr>,
          todo1b\<lparr> title := ''Updated'', updatedAt := ''2025-01-15T12:00:00.001Z'' \<rparr>]
   \<and> todos (todoReducer clock_two state_dup (TOGGLE_TODO ''1''))
       = [todo1\<lparr> completed := True, updatedAt := ''2025-01-15T12:00:00.000Z'' \<rparr>,
          todo1b\<lparr> completed := False, updatedAt := ''2025-01-15T12:00:00.001Z'' \<rparr>]
   \<and> categories (todoReducer clock_two state_dup (DELETE_CATEGORY ''cat1'')) = []"
proof -
  let ?u = "no_updates\<lparr> p_title := Some ''Updated'' \<rparr>"
  have ids: "id_t (todos state_dup ! 0) = ''1''" "id_t (todos state_dup ! 1) = ''1''"
    and len: "length (todos state_dup) = 2"
    by (simp_all add: state_dup_def todo1_def todo1b_def)
  have r: "readings_before (\<lambda>todo. id_t todo = ''1'') 0 (todos state_dup) = 0"
    "readings_before (\<lambda>todo. id_t todo = ''1'') 1 (todos state_dup) = 1"
    by (simp_all add: readings_before_def state_dup_def todo1_def todo1b_def)
  note inst = C10_every_match [of clock_two state_dup "''1''" ?u]
  have thm1: "\<forall>todo\<in>set (todos (todoReducer clock_two state_dup (DELETE_TODO ''1''))). id_t todo \<noteq> ''1''"
    using inst by blast
  have thm2: "length (todos (todoReducer clock_two state_dup (UPDATE_TODO ''1'' ?u))) = length (todos state_dup)"
    using inst by blast
  have thm3: "\<forall>k<length (todos state_dup). id_t (todos state_dup ! k) = ''1'' \<longrightarrow>
           todos (todoReducer clock_two state_dup (UPDATE_TODO ''1'' ?u)) ! k =
             (spread_todo (todos state_dup ! k) ?u)
               \<lparr> updatedAt := clock_two (readings_before (\<lambda>todo. id_t todo = ''1'') k (todos state_dup)) \<rparr>"
    using inst by blast
  have thm4: "length (todos (todoReducer clock_two state_dup (TOGGLE_TODO ''1''))) = length (todos state_dup)"
    using inst by blast
  have thm5: "\<forall>k<length (todos state_dup). id_t (todos state_dup ! k) = ''1'' \<longrightarrow>
           todos (todoReducer clock_two state_dup (TOGGLE_TODO ''1'')) ! k =
             (todos state_dup ! k)
               \<lparr> completed := \<not> completed (todos state_dup ! k),
                 updatedAt := clock_two (readings_before (\<lambda>todo. id_t todo = ''1'') k (todos state_dup)) \<rparr>"
    using inst by blast
  have del: "todos (todoReducer clock_two state_dup (DELETE_TODO ''1'')) = []"
    using thm1 by (simp add: state_dup_def todo1_def todo1b_def)
  have "\<forall>cat\<in>set (categories (todoReducer clock_two state_dup (DELETE_CATEGORY ''cat1''))). id_c cat \<noteq> ''cat1''"
    using C10_every_match [of clock_two state_dup "''cat1''" ?u] by blast
  then have delc: "categories (todoReducer clock_two state_dup (DELETE_CATEGORY ''cat1'')) = []"
    by (simp add: state_dup_def cat1_def cat1b_def)
  have upd: "todos (todoReducer clock_two state_dup (UPDATE_TODO ''1'' ?u))
       = [todo1\<lparr> title := ''Updated'', updatedAt := ''2025-01-15T12:00:00.000Z'' \<rparr>,
          todo1b\<lparr> title := ''Updated'', updatedAt := ''2025-01-15T12:00:00.001Z'' \<rparr>]"
  proof (rule nth_equalityI)
    show "length (todos (todoReducer clock_two state_dup (UPDATE_TODO ''1'' ?u))) =
          length [todo1\<lparr> title := ''Updated'', updatedAt := ''2025-01-15T12:00:00.000Z'' \<rparr>,
                  todo1b\<lparr> title := ''Updated'', updatedAt := ''2025-01-15T12:00:00.001Z'' \<rparr>]"
      using thm2 len by simp
  next
    fix k assume "k < length (todos (todoReducer clock_two state_dup (UPDATE_TODO ''1'' ?u)))"
    with thm2 len have "k = 0 \<or> k = 1" by auto
    then show "todos (todoReducer clock_two state_dup (UPDATE_TODO ''1'' ?u)) ! k =
        [todo1\<lparr> title := ''Updated'', updatedAt := ''2025-01-15T12:00:00.000Z'' \<rparr>,
         todo1b\<lparr> title := ''Updated'', updatedAt := ''2025-01-15T12:00:00.001Z'' \<rparr>] ! k"
      using thm3 ids len r
      by (auto simp: clock_two_def spread_todo_def own_def no_updates_def state_dup_def
          todo1_def todo1b_def simp del: todoReducer.simps)
  qed
  have tog: "todos (todoReducer clock_two state_dup (TOGGLE_TODO ''1''))
       = [todo1\<lparr> completed := True, updatedAt := ''2025-01-15T12:00:00.000Z'' \<rparr>,
          todo1b\<lparr> completed := False, updatedAt := ''2025-01-15T12:00:00.001Z'' \<rparr>]"
  proof (rule nth_equalityI)
    show "length (todos (todoReducer clock_two state_dup (TOGGLE_TODO ''1''))) =
          length [todo1\<lparr> completed := True, updatedAt := ''2025-01-15T12:00:00.000Z'' \<rparr>,
                  todo1b\<lparr> completed := False, updatedAt := ''2025-01-15T12:00:00.001Z'' \<rparr>]"
      using thm4 len by simp
  next
    fix k assume "k < length (todos (todoReducer clock_two state_dup (TOGGLE_TODO ''1'')))"
    with thm4 len have "k = 0 \<or> k = 1" by auto
    then show "todos (todoReducer clock_two state_dup (TOGGLE_TODO ''1'')) ! k =
        [todo1\<lparr> completed := True, updatedAt := ''2025-01-15T12:00:00.000Z'' \<rparr>,
         todo1b\<lparr> completed := False, updatedAt := ''2025-01-15T12:00:00.001Z'' \<rparr>] ! k"
      using thm5 ids len r
      by (auto simp: clock_two_def state_dup_def todo1_def todo1b_def simp del: todoReducer.simps)
  qed
  from del upd tog delc show ?thesis by blast
qed


text \<open>
  C5 as stated (the todo matched by id keeps its \<open>id\<close> and \<open>createdAt\<close> under every
  payload) fails: \<^verbatim>\<open>Partial<Todo>\<close> has the keys \<^verbatim>\<open>id\<close> and \<^verbatim>\<open>createdAt\<close>, and the
  spread copies them into the todo like any other key. Here the todo with id
  \<^verbatim>\<open>1\<close> is updated with a payload carrying both keys.
\<close>

theorem C5_counterexample:
  "0 < length (todos state1) \<and> id_t (todos state1 ! 0) = ''1''
   \<and> id_t (todos (todoReducer (clock_at ''2025-01-15T12:00:00.000Z'') state1
        (UPDATE_TODO ''1'' updates_id_createdAt)) ! 0) = ''2''
   \<and> id_t (todos (todoReducer (clock_at ''2025-01-15T12:00:00.000Z'') state1
        (UPDATE_TODO ''1'' updates_id_createdAt)) ! 0) \<noteq> id_t (todos state1 ! 0)
   \<and> createdAt (todos (todoReducer (clock_at ''2025-01-15T12:00:00.000Z'') state1
        (UPDATE_TODO ''1'' updates_id_createdAt)) ! 0) = ''1999-12-31T00:00:00.000Z''
   \<and> createdAt (todos (todoReducer (clock_at ''2025-01-15T12:00:00.000Z'') state1
        (UPDATE_TODO ''1'' updates_id_createdAt)) ! 0) \<noteq> createdAt (todos state1 ! 0)"
  by (simp add: state1_def todo1_def updates_id_createdAt_def no_updates_def
      update_todo_def spread_todo_def own_def)

text \<open>
  C5, amended. For every state, clock and Update Todo action, a todo matched by id
  keeps its \<open>id\<close> when the payload has no \<open>id\<close> key and its \<open>createdAt\<close> when the
  payload has no \<open>createdAt\<close> key; a key the payload has replaces the field. Every
  other field whose key the payload lacks is unchanged too, \<open>updatedAt\<close> apart.
\<close>

theorem C5_update_keeps_fields_not_in_payload:
  assumes "k < length (todos state)" and "id_t (todos state ! k) = i"
  shows "id_t (todos (todoReducer clock state (UPDATE_TODO i updates)) ! k) =
           (case p_id updates of None \<Rightarrow> id_t (todos state ! k) | Some v \<Rightarrow> v)
       \<and> createdAt (todos (todoReducer clock state (UPDATE_TODO i updates)) ! k) =
           (case p_createdAt updates of None \<Rightarrow> createdAt (todos state ! k) | Some v \<Rightarrow> v)
       \<and> (p_title updates = None \<longrightarrow>
            title (todos (todoReducer clock state (UPDATE_TODO i updates)) ! k) = title (todos state ! k))
       \<and> (p_description updates = None \<longrightarrow>
            description (todos (todoReducer clock state (UPDATE_TODO i updates)) ! k) = description (todos state ! k))
       \<and> (p_completed updates = None \<longrightarrow>
            completed (todos (todoReducer clock state (UPDATE_TODO i updates)) ! k) = completed (todos state ! k))
       \<and> (p_priority updates = None \<longrightarrow>
            priority (todos (todoReducer clock state (UPDATE_TODO i updates)) ! k) = priority (todos state ! k))
       \<and> (p_dueDate updates = None \<longrightarrow>
            dueDate (todos (todoReducer clock state (UPDATE_TODO i updates)) ! k) = dueDate (todos state ! k))
       \<and> (p_category updates = None \<longrightarrow>
            category (todos (todoReducer clock state (UPDATE_TODO i updates)) ! k) = category (todos state ! k))
       \<and> (p_tags updates = None \<longrightarrow>
            tags (todos (todoReducer clock state (UPDATE_TODO i updates)) ! k) = tags (todos state ! k))"
  using assms
  by (simp add: nth_map_clock update_todo_def spread_todo_def own_def split: option.splits)

theorem C5_update_keeps_witness:
  "0 < length (todos state1) \<and> id_t (todos state1 ! 0) = ''1''
   \<and> p_id (no_updates\<lparr> p_title := Some ''Buy oat milk'' \<rparr>) = None
   \<and> p_createdAt (no_updates\<lparr> p_title := Some ''Buy oat milk'' \<rparr>) = None
   \<and> id_t (todos (todoReducer (clock_at ''2025-01-15T12:00:00.000Z'') state1
        (UPDATE_TODO ''1'' (no_updates\<lparr> p_title := Some ''Buy oat milk'' \<rparr>))) ! 0) = ''1''
   \<and> createdAt (todos (todoReducer (clock_at ''2025-01-15T12:00:00.000Z'') state1
        (UPDATE_TODO ''1'' (no_updates\<lparr> p_title := Some ''Buy oat milk'' \<rparr>))) ! 0)
       = ''2025-01-01T00:00:00.000Z''
   \<and> tags (todos (todoReducer (clock_at ''2025-01-15T12:00:00.000Z'') state1
        (UPDATE_TODO ''1'' (no_updates\<lparr> p_title := Some ''Buy oat milk'' \<rparr>))) ! 0) = [''test'']"
proof -
  let ?u = "no_updates\<lparr> p_title := Some ''Buy oat milk'' \<rparr>"
  have h: "0 < length (todos state1)" "id_t (todos state1 ! 0) = ''1''"
    by (simp_all add: state1_def todo1_def)
  have n: "p_id ?u = None" "p_createdAt ?u = None" "p_tags ?u = None"
    by (simp_all add: no_updates_def)
  have v: "id_t (todos state1 ! 0) = ''1''"
    "createdAt (todos state1 ! 0) = ''2025-01-01T00:00:00.000Z''"
    "tags (todos state1 ! 0) = [''test'']"
    by (simp_all add: state1_def todo1_def)
  from C5_update_keeps_fields_not_in_payload
    [OF h, of "clock_at ''2025-01-15T12:00:00.000Z''" ?u]
  show ?thesis using h n v by (simp del: todoReducer.simps)
qed

section \<open>Properties of the derived view\<close>

text \<open>
  C2. Partition law: for every state and every filter setting (any search text,
  category, priority, \<open>showCompleted\<close> and \<open>sortBy\<close>), no completed todo stands
  before an incomplete one in the derived view: once a completed todo occurs at a
  position, every later position holds a completed todo. The comparator answers by
  completion before it looks at the sort key. The states are those of the data model,
  as far as the comparator reads the todos of the view: when sorting by \<open>createdAt\<close>
  the \<open>createdAt\<close> of each is a date, and when sorting by \<open>dueDate\<close> each due date
  that is present and not empty is a date.
\<close>

theorem C2_partition_law:
  assumes "sortBy (filter_s state) = createdAt_key \<longrightarrow>
             (\<forall>todo\<in>set (filteredAndSortedTodos toLowerCase getTime state).
                getTime (createdAt todo) \<noteq> None)"
    and "sortBy (filter_s state) = dueDate_key \<longrightarrow>
             (\<forall>todo\<in>set (filteredAndSortedTodos toLowerCase getTime state).
                truthy (dueDate todo) \<longrightarrow> dateTime getTime (dueDate todo) \<noteq> None)"
    and "i < j" and "j < length (filteredAndSortedTodos toLowerCase getTime state)"
    and "completed (filteredAndSortedTodos toLowerCase getTime state ! i)"
  shows "completed (filteredAndSortedTodos toLowerCase getTime state ! j)"
proof -
  let ?ys = "filteredAndSortedTodos toLowerCase getTime state"
  let ?f = "viewKey getTime (sortBy (filter_s state))"
  have "?ys = sort_key ?f (filterTodos toLowerCase state)"
    using assms(1,2) by (rule view_stable_sort)
  then have "sorted (map ?f ?ys)" by simp
  moreover have "fst (?f (?ys ! i))" using assms(5) by (simp add: viewKey_completed)
  ultimately have "fst (?f (?ys ! j))"
    using assms(3,4) by (intro sorted_key_partition [of ?f ?ys i j])
  then show ?thesis by (simp add: viewKey_completed)
qed

theorem C2_partition_witness:
  "sortBy (filter_s state_mock) = createdAt_key
   \<and> filteredAndSortedTodos toLowerCase_ascii getTime_sample state_mock = [mock2, mock1, mock4, mock3]
   \<and> getTime_sample (createdAt mock2) = Some 1735776000000
   \<and> getTime_sample (createdAt mock1) = Some 1735689600000
   \<and> getTime_sample (createdAt mock4) = Some 1735948800000
   \<and> getTime_sample (createdAt mock3) = Some 1735862400000
   \<and> (2::nat) < 3 \<and> 3 < length (filteredAndSortedTodos toLowerCase_ascii getTime_sample state_mock)
   \<and> completed (filteredAndSortedTodos toLowerCase_ascii getTime_sample state_mock ! 2)
   \<and> completed (filteredAndSortedTodos toLowerCase_ascii getTime_sample state_mock ! 3)"
proof -
  have k: "sortBy (filter_s state_mock) = createdAt_key"
    by (simp add: state_mock_def initialState_def)
  have v: "filteredAndSortedTodos toLowerCase_ascii getTime_sample state_mock = [mock2, mock1, mock4, mock3]"
    by (simp add: filteredAndSortedTodos_def filterTodos_def state_mock_def initialState_def truthy_def
        compareTodos_def sortCompare_def minus_num_def getTime_sample_def
        mock1_def mock2_def mock3_def mock4_def)
  have t: "getTime_sample (createdAt mock2) = Some 1735776000000"
    "getTime_sample (createdAt mock1) = Some 1735689600000"
    "getTime_sample (createdAt mock4) = Some 1735948800000"
    "getTime_sample (createdAt mock3) = Some 1735862400000"
    by (simp_all add: getTime_sample_def mock1_def mock2_def mock3_def mock4_def)
  have d1: "sortBy (filter_s state_mock) = createdAt_key \<longrightarrow>
      (\<forall>todo\<in>set (filteredAndSortedTodos toLowerCase_ascii getTime_sample state_mock).
         getTime_sample (createdAt todo) \<noteq> None)"
    unfolding v using t by simp
  have d2: "sortBy (filter_s state_mock) = dueDate_key \<longrightarrow>
      (\<forall>todo\<in>set (filteredAndSortedTodos toLowerCase_ascii getTime_sample state_mock).
         truthy (dueDate todo) \<longrightarrow> dateTime getTime_sample (dueDate todo) \<noteq> None)"
    using k by simp
  have h: "(2::nat) < 3" "3 < length (filteredAndSortedTodos toLowerCase_ascii getTime_sample state_mock)"
    "completed (filteredAndSortedTodos toLowerCase_ascii getTime_sample state_mock ! 2)"
    by (simp_all add: v mock4_def)
  from k v t h C2_partition_law [OF d1 d2 h] show ?thesis by blast
qed

text \<open>
  C3. Filter composition: the todos of the derived view are exactly the todos of the
  state that satisfy every predicate that is set, and each as often as the state holds
  it. The predicates: when \<open>searchText\<close> is not empty, its lower-cased text is a
  substring of the lower-cased title, or the todo has a description and it is a
  substring of the lower-cased description; when the filter's category is set (present
  and not empty, which is what the source tests), the todo's category equals it; when
  the filter's priority is set, the todo's priority equals it; when \<open>showCompleted\<close>
  is false, the todo is not completed. The view is a total function: a todo with no
  description raises nothing.
\<close>

theorem C3_filter_composition:
  "set (filteredAndSortedTodos toLowerCase getTime state) =
     {todo \<in> set (todos state).
        (searchText (filter_s state) \<noteq> [] \<longrightarrow>
           substring_of (toLowerCase (searchText (filter_s state))) (toLowerCase (title todo))
           \<or> (\<exists>d. description todo = Some d
                 \<and> substring_of (toLowerCase (searchText (filter_s state))) (toLowerCase d)))
      \<and> (truthy (category_f (filter_s state)) \<longrightarrow> category todo = category_f (filter_s state))
      \<and> (\<forall>p. priority_f (filter_s state) = Some p \<longrightarrow> priority todo = p)
      \<and> (\<not> showCompleted (filter_s state) \<longrightarrow> \<not> completed todo)}
   \<and> mset (filteredAndSortedTodos toLowerCase getTime state) =
     filter_mset (\<lambda>todo.
        (searchText (filter_s state) \<noteq> [] \<longrightarrow>
           substring_of (toLowerCase (searchText (filter_s state))) (toLowerCase (title todo))
           \<or> (\<exists>d. description todo = Some d
                 \<and> substring_of (toLowerCase (searchText (filter_s state))) (toLowerCase d)))
      \<and> (truthy (category_f (filter_s state)) \<longrightarrow> category todo = category_f (filter_s state))
      \<and> (\<forall>p. priority_f (filter_s state) = Some p \<longrightarrow> priority todo = p)
      \<and> (\<not> showCompleted (filter_s state) \<longrightarrow> \<not> completed todo)) (mset (todos state))"
proof -
  have p: "(priority_f (filter_s state) \<noteq> None \<longrightarrow> Some (priority todo) = priority_f (filter_s state))
      \<longleftrightarrow> (\<forall>p. priority_f (filter_s state) = Some p \<longrightarrow> priority todo = p)" for todo
    by (cases "priority_f (filter_s state)") auto
  show ?thesis
    unfolding filteredAndSortedTodos_def set_sort_js mset_sort_js filterTodos_eq set_filter
      mset_filter matchesSearch_iff p
    by (rule conjI; rule refl)
qed

theorem C3_filter_composition_witness:
  "set (filteredAndSortedTodos toLowerCase_ascii getTime_sample state_filtered) = {mock1}"
proof -
  have f: "filter_s state_filtered = \<lparr> searchText = ''A'', category_f = Some ''Work'',
       priority_f = Some high, showCompleted = False, sortBy = createdAt_key \<rparr>"
    and t: "todos state_filtered = [mock1, mock2, mock3, mock4]"
    by (simp_all add: state_filtered_def state_mock_def)
  have l1: "toLowerCase_ascii ''A'' = ''a''"
    by code_simp
  have l2: "toLowerCase_ascii (title mock1) = ''high priority todo''"
    by code_simp
  have l3: "toLowerCase_ascii ''Important task'' = ''important task''"
    by code_simp
  note l = l1 l2 l3
  have s: "\<not> substring_of ''a'' ''high priority todo''" "substring_of ''a'' ''important task''"
    by (simp_all add: includes_s_iff [symmetric])
  have m1: "description mock1 = Some ''Important task''" "category mock1 = Some ''Work''"
    "priority mock1 = high" "\<not> completed mock1"
    by (simp_all add: mock1_def)
  have m2: "category mock2 \<noteq> Some ''Work''" by (simp add: mock2_def)
  have m3: "completed mock3" by (simp add: mock3_def)
  have m4: "completed mock4" by (simp add: mock4_def)
  from C3_filter_composition [of toLowerCase_ascii getTime_sample state_filtered]
  have "set (filteredAndSortedTodos toLowerCase_ascii getTime_sample state_filtered) =
     {todo \<in> set [mock1, mock2, mock3, mock4].
        (substring_of ''a'' (toLowerCase_ascii (title todo))
           \<or> (\<exists>d. description todo = Some d \<and> substring_of ''a'' (toLowerCase_ascii d)))
      \<and> category todo = Some ''Work''
      \<and> priority todo = high
      \<and> \<not> completed todo}"
    by (simp add: f t l(1) truthy_def)
  also have "\<dots> = {mock1}"
    using l s m1 m2 m3 m4 by auto
  finally show ?thesis .
qed

text \<open>
  C4. Order under \<open>sortBy = dueDate\<close>. For every state with \<open>sortBy = dueDate\<close>, the
  due dates being the data model's calendar dates on the todos the view sorts (each
  due date that is present and not empty is a date; an absent or empty due date is no
  due date), the derived view satisfies: of two todos of one completion partition, if
  the later has a due date then the earlier has one too, and its instant is not after
  the later's (dated todos ascending, and before all todos with no due date); and the
  sort is stable: the todos of the view with one completion and one due instant (or
  none) stand in the order they have in the state.
\<close>

theorem C4_dueDate_order:
  assumes by_due: "sortBy (filter_s state) = dueDate_key"
    and dates: "\<forall>todo\<in>set (filteredAndSortedTodos toLowerCase getTime state).
        truthy (dueDate todo) \<longrightarrow> dateTime getTime (dueDate todo) \<noteq> None"
  shows "(\<forall>i j. i < j \<and> j < length (filteredAndSortedTodos toLowerCase getTime state)
            \<and> completed (filteredAndSortedTodos toLowerCase getTime state ! i)
              = completed (filteredAndSortedTodos toLowerCase getTime state ! j)
            \<and> truthy (dueDate (filteredAndSortedTodos toLowerCase getTime state ! j))
          \<longrightarrow> truthy (dueDate (filteredAndSortedTodos toLowerCase getTime state ! i))
            \<and> (\<exists>u v. dueTime getTime (filteredAndSortedTodos toLowerCase getTime state ! i) = Some u
                   \<and> dueTime getTime (filteredAndSortedTodos toLowerCase getTime state ! j) = Some v
                   \<and> u \<le> v))
       \<and> (\<forall>c k. filter (\<lambda>todo. completed todo = c \<and> dueTime getTime todo = k)
                   (filteredAndSortedTodos toLowerCase getTime state)
               = filter (\<lambda>todo. completed todo = c \<and> dueTime getTime todo = k
                          \<and> todo \<in> set (filteredAndSortedTodos toLowerCase getTime state))
                   (todos state))"
proof -
  let ?c = "compareTodos getTime dueDate_key"
  let ?xs = "filterTodos toLowerCase state"
  let ?ys = "filteredAndSortedTodos toLowerCase getTime state"
  let ?f = "dueKey getTime"
  have set_ys0: "set ?ys = set ?xs"
    unfolding filteredAndSortedTodos_def by (rule set_sort_js)
  have valid: "truthy (dueDate t) \<longrightarrow> dateTime getTime (dueDate t) \<noteq> None" if "t \<in> set ?xs" for t
    using that dates unfolding set_ys0 by blast
  have agree: "\<forall>x\<in>set ?xs. \<forall>y\<in>set ?xs. (sortCompare ?c x y \<le> 0) = (?f x \<le> ?f y)"
    using valid compare_dueDate_dueKey by blast
  have ys: "?ys = sort_key ?f ?xs"
    unfolding filteredAndSortedTodos_def by_due using agree by (rule sort_js_sort_key)
  have set_ys: "set ?ys = set ?xs" by (simp add: ys)
  have sorted: "sorted (map ?f ?ys)" by (simp add: ys)
  have order: "truthy (dueDate (?ys ! i))
            \<and> (\<exists>u v. dueTime getTime (?ys ! i) = Some u \<and> dueTime getTime (?ys ! j) = Some v \<and> u \<le> v)"
    if ij: "i < j" "j < length ?ys" and same: "completed (?ys ! i) = completed (?ys ! j)"
      and tj: "truthy (dueDate (?ys ! j))" for i j
  proof -
    have "map ?f ?ys ! i \<le> map ?f ?ys ! j"
      using sorted ij by (intro sorted_nth_mono) simp_all
    then have le: "?f (?ys ! i) \<le> ?f (?ys ! j)" using ij by simp
    have "?ys ! i \<in> set ?xs" "?ys ! j \<in> set ?xs"
      using ij set_ys nth_mem [of i ?ys] nth_mem [of j ?ys] by auto
    then have vi: "truthy (dueDate (?ys ! i)) \<longrightarrow> dateTime getTime (dueDate (?ys ! i)) \<noteq> None"
      and vj: "truthy (dueDate (?ys ! j)) \<longrightarrow> dateTime getTime (dueDate (?ys ! j)) \<noteq> None"
      using valid by blast+
    from vj tj obtain v where v: "dateTime getTime (dueDate (?ys ! j)) = Some v" by auto
    from le same tj have ti: "truthy (dueDate (?ys ! i))"
      by (auto simp: dueKey_def)
    with vi obtain u where u: "dateTime getTime (dueDate (?ys ! i)) = Some u" by auto
    from le same ti tj u v have "u \<le> v"
      by (auto simp: dueKey_def dueTime_def)
    with ti tj u v show ?thesis by (simp add: dueTime_def)
  qed
  have stable: "filter (\<lambda>todo. completed todo = c \<and> dueTime getTime todo = k) ?ys
               = filter (\<lambda>todo. completed todo = c \<and> dueTime getTime todo = k \<and> todo \<in> set ?ys)
                   (todos state)" for c k
  proof -
    let ?k = "(c, k = None, (case k of None \<Rightarrow> 0 | Some v \<Rightarrow> v))"
    have key: "(completed t = c \<and> dueTime getTime t = k) = (?f t = ?k)" if "t \<in> set ?xs" for t
      using valid [OF that] by (cases k) (auto simp: dueKey_def dueTime_def)
    have "filter (\<lambda>todo. completed todo = c \<and> dueTime getTime todo = k) ?ys
        = filter (\<lambda>todo. ?f todo = ?k) ?ys"
      using key set_ys by (intro filter_cong) auto
    also have "\<dots> = filter (\<lambda>todo. ?f todo = ?k) ?xs"
      unfolding ys by (rule sort_key_stable)
    also have "\<dots> = filter (\<lambda>todo. completed todo = c \<and> dueTime getTime todo = k) ?xs"
      using key by (intro filter_cong) auto
    also have "\<dots> = filter (\<lambda>todo. completed todo = c \<and> dueTime getTime todo = k \<and> todo \<in> set ?xs)
                   (todos state)"
    proof -
      obtain P where xs: "?xs = filter P (todos state)"
        using filterTodos_eq by blast
      show ?thesis unfolding xs
        by (simp only: filter_filter_mem conj_assoc)
    qed
    finally show ?thesis unfolding set_ys .
  qed
  from order stable show ?thesis by blast
qed

theorem C4_dueDate_order_witness:
  "sortBy (filter_s state_mock_due) = dueDate_key
   \<and> filteredAndSortedTodos toLowerCase_ascii getTime_sample state_mock_due = [mock2, mock1, mock4, mock3]
   \<and> truthy (dueDate (filteredAndSortedTodos toLowerCase_ascii getTime_sample state_mock_due ! 0))
   \<and> (\<exists>u v. dueTime getTime_sample (filteredAndSortedTodos toLowerCase_ascii getTime_sample state_mock_due ! 0) = Some u
          \<and> dueTime getTime_sample (filteredAndSortedTodos toLowerCase_ascii getTime_sample state_mock_due ! 1) = Some v
          \<and> u \<le> v)
   \<and> dueTime getTime_sample mock2 = Some 1767052800000
   \<and> dueTime getTime_sample mock1 = Some 1767139200000"
proof -
  let ?ys = "filteredAndSortedTodos toLowerCase_ascii getTime_sample state_mock_due"
  have h1: "sortBy (filter_s state_mock_due) = dueDate_key"
    by (simp add: state_mock_due_def)
  have v: "?ys = [mock2, mock1, mock4, mock3]"
    by (simp add: filteredAndSortedTodos_def filterTodos_def state_mock_due_def state_mock_def
        initialState_def truthy_def compareTodos_def sortCompare_def minus_num_def dateTime_def
        getTime_sample_def mock1_def mock2_def mock3_def mock4_def)
  have h2: "\<forall>todo\<in>set ?ys.
      truthy (dueDate todo) \<longrightarrow> dateTime getTime_sample (dueDate todo) \<noteq> None"
    unfolding v
    by (simp add: truthy_def dateTime_def getTime_sample_def mock1_def mock2_def mock3_def mock4_def)
  have d: "dueTime getTime_sample mock2 = Some 1767052800000"
    "dueTime getTime_sample mock1 = Some 1767139200000"
    by (simp_all add: dueTime_def truthy_def dateTime_def getTime_sample_def mock1_def mock2_def)
  have pre: "(0::nat) < 1 \<and> 1 < length ?ys \<and> completed (?ys ! 0) = completed (?ys ! 1)
      \<and> truthy (dueDate (?ys ! 1))"
    by (simp add: v truthy_def mock1_def mock2_def)
  from C4_dueDate_order [OF h1 h2]
  have "\<forall>i j. i < j \<and> j < length ?ys \<and> completed (?ys ! i) = completed (?ys ! j)
            \<and> truthy (dueDate (?ys ! j))
          \<longrightarrow> truthy (dueDate (?ys ! i))
            \<and> (\<exists>u v. dueTime getTime_sample (?ys ! i) = Some u
                   \<and> dueTime getTime_sample (?ys ! j) = Some v \<and> u \<le> v)"
    by (rule conjunct1)
  with pre have "truthy (dueDate (?ys ! 0))
            \<and> (\<exists>u v. dueTime getTime_sample (?ys ! 0) = Some u
                   \<and> dueTime getTime_sample (?ys ! 1) = Some v \<and> u \<le> v)"
    by blast
  with h1 v d show ?thesis by blast
qed

section \<open>Properties of the persistence adapter and the facade\<close>

text \<open>
  C7. Load degrades gracefully: whatever the storage read and the parser do, Load
  returns and raises nothing; it returns no value when the slot is absent, when the
  slot's text fails to parse, and when the read of the storage raises. A corrupted
  slot gives what an absent slot gives. (That the text \<^verbatim>\<open>invalid json\<close> fails to parse
  is a fact about \<^verbatim>\<open>JSON.parse\<close>, a parameter here.)
\<close>

theorem C7_load_graceful:
  "(\<exists>r. loadFromLocalStorage getItem parse = Inr r)
   \<and> (getItem STORAGE_KEY = Inr None \<longrightarrow> loadFromLocalStorage getItem parse = Inr None)
   \<and> (\<forall>serialized e. getItem STORAGE_KEY = Inr (Some serialized) \<and> parse serialized = Inl e
         \<longrightarrow> loadFromLocalStorage getItem parse = Inr None)
   \<and> (\<forall>e. getItem STORAGE_KEY = Inl e \<longrightarrow> loadFromLocalStorage getItem parse = Inr None)"
  by (auto simp: loadFromLocalStorage_def try_catch_def split: sum.splits option.splits)

theorem C7_load_graceful_witness:
  "getItem_corrupted STORAGE_KEY = Inr (Some ''invalid json'')
   \<and> parse_sample ''invalid json'' = Inl SyntaxError
   \<and> loadFromLocalStorage getItem_corrupted parse_sample = Inr None
   \<and> getItem_empty STORAGE_KEY = Inr None
   \<and> loadFromLocalStorage getItem_empty parse_sample = Inr None
   \<and> getItem_raises STORAGE_KEY = Inl StorageError
   \<and> loadFromLocalStorage getItem_raises parse_sample = Inr None"
proof -
  have c: "getItem_corrupted STORAGE_KEY = Inr (Some ''invalid json'')"
    "parse_sample ''invalid json'' = Inl SyntaxError"
    by (simp_all add: getItem_corrupted_def STORAGE_KEY_def parse_sample_def)
  have e: "getItem_empty STORAGE_KEY = Inr None" by (simp add: getItem_empty_def)
  have r: "getItem_raises STORAGE_KEY = Inl StorageError" by (simp add: getItem_raises_def)
  from C7_load_graceful [of getItem_corrupted parse_sample] c
  have 1: "loadFromLocalStorage getItem_corrupted parse_sample = Inr None" by blast
  from C7_load_graceful [of getItem_empty parse_sample] e
  have 2: "loadFromLocalStorage getItem_empty parse_sample = Inr None" by blast
  from C7_load_graceful [of getItem_raises parse_sample] r
  have 3: "loadFromLocalStorage getItem_raises parse_sample = Inr None" by blast
  from c e r 1 2 3 show ?thesis by blast
qed

text \<open>
  C6. Startup ordering of the facade. In every run of the provider, from the first
  render (the default state, not initialized) through any sequence of mounts and
  dispatches: every call of \<^verbatim>\<open>saveToLocalStorage\<close> comes after a call of
  \<^verbatim>\<open>loadFromLocalStorage\<close> and after \<^verbatim>\<open>setIsInitialized(true)\<close>; as long as the
  provider is not initialized nothing has been saved, so the state of the first render
  is not saved; and when the load returns a state, the first save of the run writes
  that state, whatever was dispatched before the mount's effects ran, so the default
  state never replaces the persisted one. (When the load returns nothing, the state
  saved once initialization is complete is the current state, which is the default
  state if nothing was dispatched.)
\<close>

theorem C6_save_only_after_init:
  "(\<forall>pre s post. calls (facade_run events) = pre @ SaveCall s # post \<longrightarrow>
       SetIsInitializedCall True \<in> set pre \<and> (\<exists>l. LoadCall l \<in> set pre))
   \<and> (\<not> isInitialized (facade_run events) \<longrightarrow> (\<forall>s. SaveCall s \<notin> set (calls (facade_run events))))
   \<and> (\<forall>ds clock s. (\<forall>e\<in>set ds. \<exists>c a. e = Dispatched c a) \<longrightarrow>
         first_save (calls (facade_run (ds @ Mounted clock (Some s) # events))) = Some s)"
proof -
  have inv: "facade_inv (facade_run events)"
    unfolding facade_run_def using facade_inv_provider0 by (rule facade_inv_foldl)
  have a: "\<forall>pre s post. calls (facade_run events) = pre @ SaveCall s # post \<longrightarrow>
       SetIsInitializedCall True \<in> set pre \<and> (\<exists>l. LoadCall l \<in> set pre)"
    using inv unfolding facade_inv_def saves_after_init_def by blast
  have b: "\<not> isInitialized (facade_run events) \<longrightarrow> (\<forall>s. SaveCall s \<notin> set (calls (facade_run events)))"
    using inv unfolding facade_inv_def by blast
  have c: "first_save (calls (facade_run (ds @ Mounted clock (Some s) # events))) = Some s"
    if ds: "\<forall>e\<in>set ds. \<exists>c a. e = Dispatched c a" for ds clock s
  proof -
    let ?p = "foldl facade_step provider0 ds"
    have "\<not> isInitialized provider0" by (simp add: provider0_def)
    from dispatches_before_mount [OF this ds]
    have p: "\<not> isInitialized ?p" "calls ?p = []" by (simp_all add: provider0_def)
    have m: "calls (facade_step ?p (Mounted clock (Some s))) =
        [LoadCall (Some s), SetIsInitializedCall True, SaveCall s]"
      unfolding calls_Mounted using p by (simp add: effect_save_def)
    obtain cs where cs: "calls (foldl facade_step (facade_step ?p (Mounted clock (Some s))) events)
        = calls (facade_step ?p (Mounted clock (Some s))) @ cs"
      using calls_foldl_append by blast
    have "first_save (calls (facade_step ?p (Mounted clock (Some s)))) = Some s"
      unfolding m by simp
    then have "first_save (calls (facade_step ?p (Mounted clock (Some s))) @ cs) = Some s"
      by (rule first_save_append)
    then show ?thesis unfolding facade_run_def using cs by simp
  qed
  from a b c show ?thesis by blast
qed

theorem C6_save_only_after_init_witness:
  "calls (facade_run events_loaded) =
     [LoadCall (Some state1), SetIsInitializedCall True] @ SaveCall state1
       # [SaveCall (state1\<lparr> todos := [todo1, mock1] \<rparr>)]
   \<and> SetIsInitializedCall True \<in> set [LoadCall (Some state1), SetIsInitializedCall True]
   \<and> (\<exists>l. LoadCall l \<in> set [LoadCall (Some state1), SetIsInitializedCall True])
   \<and> \<not> isInitialized (facade_run events_unmounted)
   \<and> calls (facade_run events_unmounted) = []
   \<and> first_save (calls (facade_run ([] @ Mounted noon (Some state1) # [Dispatched noon (ADD_TODO mock1)])))
       = Some state1"
proof -
  have l: "calls (facade_run events_loaded) =
     [LoadCall (Some state1), SetIsInitializedCall True] @ SaveCall state1
       # [SaveCall (state1\<lparr> todos := [todo1, mock1] \<rparr>)]"
    by (simp add: facade_run_def events_loaded_def provider0_def effect_load_def effect_save_def
        Let_def state1_def)
  have u: "\<not> isInitialized (facade_run events_unmounted)"
    by (simp add: facade_run_def events_unmounted_def provider0_def Let_def)
  from C6_save_only_after_init [of events_loaded] l
  have 1: "SetIsInitializedCall True \<in> set [LoadCall (Some state1), SetIsInitializedCall True]
      \<and> (\<exists>l. LoadCall l \<in> set [LoadCall (Some state1), SetIsInitializedCall True])"
    by blast
  from C6_save_only_after_init [of events_unmounted] u
  have n: "\<forall>s. SaveCall s \<notin> set (calls (facade_run events_unmounted))" by blast
  have 2: "calls (facade_run events_unmounted) = []"
    by (simp add: facade_run_def events_unmounted_def provider0_def effect_save_def Let_def)
  have d: "\<forall>e\<in>set ([]::Event list). \<exists>c a. e = Dispatched c a" by simp
  from C6_save_only_after_init [of "[Dispatched noon (ADD_TODO mock1)]"] d
  have 3: "first_save (calls (facade_run ([] @ Mounted noon (Some state1) # [Dispatched noon (ADD_TODO mock1)])))
       = Some state1"
    by blast
  from l 1 u 2 3 show ?thesis by blast
qed

section \<open>Purity of the reducer\<close>

text \<open>
  C1 as stated (a second invocation with identical (S, A) yields an identical result,
  the clock being an input from outside) fails: the reducer calls
  \<^verbatim>\<open>new Date().toISOString()\<close> itself, so two invocations with the same state and
  the same action differ when the clock has moved between them. Toggle Todo on the
  same state, at noon and one second later:
\<close>

theorem C1_counterexample:
  "updatedAt (todos (todoReducer noon state1 (TOGGLE_TODO ''1'')) ! 0) = ''2025-01-15T12:00:00.000Z''
   \<and> updatedAt (todos (todoReducer noon_later state1 (TOGGLE_TODO ''1'')) ! 0) = ''2025-01-15T12:00:01.000Z''
   \<and> todoReducer noon state1 (TOGGLE_TODO ''1'') \<noteq> todoReducer noon_later state1 (TOGGLE_TODO ''1'')"
proof -
  have a: "updatedAt (todos (todoReducer noon state1 (TOGGLE_TODO ''1'')) ! 0) = ''2025-01-15T12:00:00.000Z''"
    by (simp add: noon_def clock_at_def state1_def todo1_def toggle_todo_def)
  have b: "updatedAt (todos (todoReducer noon_later state1 (TOGGLE_TODO ''1'')) ! 0) = ''2025-01-15T12:00:01.000Z''"
    by (simp add: noon_later_def clock_at_def state1_def todo1_def toggle_todo_def)
  have "todoReducer noon state1 (TOGGLE_TODO ''1'') \<noteq> todoReducer noon_later state1 (TOGGLE_TODO ''1'')"
  proof
    assume "todoReducer noon state1 (TOGGLE_TODO ''1'') = todoReducer noon_later state1 (TOGGLE_TODO ''1'')"
    with a have "updatedAt (todos (todoReducer noon_later state1 (TOGGLE_TODO ''1'')) ! 0)
        = ''2025-01-15T12:00:00.000Z''"
      by (simp del: todoReducer.simps)
    with b show False by (simp del: todoReducer.simps)
  qed
  with a b show ?thesis by blast
qed

text \<open>
  C1, amended. Invoking the reducer does not mutate S: on a heap in which the
  reference \<open>st\<close> holds the state S and the action's payload references hold the action
  A, the reducer returns, every object allocated before the call is unchanged after it
  (the heap is only extended), \<open>st\<close> still holds S, and the reference returned holds
  the state that the reducer on values gives. And the result is a function of S, A
  and the clock readings the reducer makes, one per todo matched by Update Todo or
  Toggle Todo: two invocations with identical (S, A) yield an identical result when
  those readings agree, and always when there is none (every other action, or an id
  that matches no todo).
\<close>

theorem C1_reducer_purity:
  "(state_at h st = Some S \<and> action_at h act = Some A \<longrightarrow>
      (\<exists>ext r. todoReducer_ref clock h st act = Some (h @ ext, r)
         \<and> state_at (h @ ext) r = Some (todoReducer clock S A)
         \<and> state_at (h @ ext) st = Some S))
   \<and> ((\<forall>k<clock_readings S A. clock1 k = clock2 k) \<longrightarrow>
        todoReducer clock1 S A = todoReducer clock2 S A)"
proof (intro conjI impI)
  assume "state_at h st = Some S \<and> action_at h act = Some A"
  then have S: "state_at h st = Some S" and A: "action_at h act = Some A" by blast+
  from todoReducer_ref_result [OF S A, of clock] obtain ext r where
    "todoReducer_ref clock h st act = Some (h @ ext, r)"
    "state_at (h @ ext) r = Some (todoReducer clock S A)"
    by blast
  moreover have "state_at (h @ ext) st = Some S" using S by (rule state_at_append)
  ultimately show "\<exists>ext r. todoReducer_ref clock h st act = Some (h @ ext, r)
         \<and> state_at (h @ ext) r = Some (todoReducer clock S A)
         \<and> state_at (h @ ext) st = Some S"
    by blast
next
  assume c: "\<forall>k<clock_readings S A. clock1 k = clock2 k"
  show "todoReducer clock1 S A = todoReducer clock2 S A"
  proof (cases A)
    case (UPDATE_TODO i updates)
    with c have "\<forall>j<length (filter (\<lambda>todo. id_t todo = i) (todos S)). clock1 (0 + j) = clock2 (0 + j)"
      by simp
    then have "map_clock clock1 0 (\<lambda>todo. id_t todo = i) (update_todo updates) (todos S)
        = map_clock clock2 0 (\<lambda>todo. id_t todo = i) (update_todo updates) (todos S)"
      by (rule map_clock_cong_clock)
    with UPDATE_TODO show ?thesis by simp
  next
    case (TOGGLE_TODO payload)
    with c have "\<forall>j<length (filter (\<lambda>todo. id_t todo = payload) (todos S)). clock1 (0 + j) = clock2 (0 + j)"
      by simp
    then have "map_clock clock1 0 (\<lambda>todo. id_t todo = payload) toggle_todo (todos S)
        = map_clock clock2 0 (\<lambda>todo. id_t todo = payload) toggle_todo (todos S)"
      by (rule map_clock_cong_clock)
    with TOGGLE_TODO show ?thesis by simp
  qed simp_all
qed

theorem C1_reducer_purity_witness:
  "state_at heap1 4 = Some state1
   \<and> action_at heap1 (TOGGLE_TODO_ref ''1'') = Some (TOGGLE_TODO ''1'')
   \<and> (\<exists>ext r. todoReducer_ref noon heap1 4 (TOGGLE_TODO_ref ''1'') = Some (heap1 @ ext, r)
         \<and> state_at (heap1 @ ext) r = Some (todoReducer noon state1 (TOGGLE_TODO ''1''))
         \<and> state_at (heap1 @ ext) 4 = Some state1)
   \<and> clock_readings state1 (TOGGLE_TODO ''1'') = 1
   \<and> noon 0 = clock_two 0
   \<and> todoReducer noon state1 (TOGGLE_TODO ''1'') = todoReducer clock_two state1 (TOGGLE_TODO ''1'')
   \<and> clock_readings state1 (DELETE_TODO ''1'') = 0
   \<and> todoReducer noon state1 (DELETE_TODO ''1'') = todoReducer noon_later state1 (DELETE_TODO ''1'')"
proof -
  have s: "state_at heap1 4 = Some state1"
    by (simp add: heap1_def state_at_def get_state_def get_array_def get_todo_def get_category_def
        get_filter_def rd_def state1_def initialState_def)
  have a: "action_at heap1 (TOGGLE_TODO_ref ''1'') = Some (TOGGLE_TODO ''1'')" by simp
  have r1: "clock_readings state1 (TOGGLE_TODO ''1'') = 1"
    by (simp add: state1_def todo1_def)
  have c1: "noon 0 = clock_two 0" by (simp add: noon_def clock_at_def clock_two_def)
  have r0: "clock_readings state1 (DELETE_TODO ''1'') = 0" by simp
  from C1_reducer_purity [of heap1 4 state1 "TOGGLE_TODO_ref ''1''" "TOGGLE_TODO ''1''" noon] s a
  have 1: "\<exists>ext r. todoReducer_ref noon heap1 4 (TOGGLE_TODO_ref ''1'') = Some (heap1 @ ext, r)
         \<and> state_at (heap1 @ ext) r = Some (todoReducer noon state1 (TOGGLE_TODO ''1''))
         \<and> state_at (heap1 @ ext) 4 = Some state1"
    by blast
  have "\<forall>k<clock_readings state1 (TOGGLE_TODO ''1''). noon k = clock_two k"
    unfolding r1 using c1 by simp
  with C1_reducer_purity [of heap1 4 state1 "TOGGLE_TODO_ref ''1''" "TOGGLE_TODO ''1''" noon noon clock_two]
  have 2: "todoReducer noon state1 (TOGGLE_TODO ''1'') = todoReducer clock_two state1 (TOGGLE_TODO ''1'')"
    by blast
  have "\<forall>k<clock_readings state1 (DELETE_TODO ''1''). noon k = noon_later k"
    unfolding r0 by simp
  with C1_reducer_purity [of heap1 4 state1 "DELETE_TODO_ref ''1''" "DELETE_TODO ''1''" noon noon noon_later]
  have 3: "todoReducer noon state1 (DELETE_TODO ''1'') = todoReducer noon_later state1 (DELETE_TODO ''1'')"
    by blast
  from s a 1 r1 c1 2 r0 3 show ?thesis by blast
qed

end
